theory Spec2Isabelle
  imports Main "HOL-Library.Sublist"
begin

section \<open>The local renderer of vscode-plantuml (src/plantuml/renders/local.ts)\<close>

text \<open>
  \<open>LocalRender.createTask\<close> starts one PlantUML process per page of a diagram inside a
  synchronous \<open>reduce\<close>, and chains one promise continuation per page that feeds the
  process, awaits \<open>processWrapper\<close> and, for the format \<open>emf\<close>, calls inkscape.

  The embedding is state passing. The variables that the closures of \<open>createTask\<close>
  share (\<open>format\<close>, \<open>savePath\<close>, \<open>processes\<close>, \<open>buffers\<close>) are the fields of
  \<open>state\<close>; every effect on the outside world, and every append to \<open>processes\<close>, is
  appended to the field \<open>trace\<close>, in the order in which the code performs it. A continuation registered with \<open>then\<close>
  never runs before the synchronous code that registered it has returned, so the run is
  the whole \<open>reduce\<close> (function \<open>launch\<close>) followed by the continuations in the order
  of registration (function \<open>chain\<close>).

  What the file imports is a parameter of the model (record \<open>env\<close>): the configuration,
  the localisation, \<open>addFileIndex\<close>, Node's \<open>path\<close> and \<open>fs\<close>, and the behaviour of
  the outside world during one run: whether a process is found killed, how
  \<open>processWrapper\<close> settles for a page, and whether \<open>execFileSync\<close> throws.
  \<open>processWrapper\<close> is taken to settle; a promise that stays pending is not modelled.
\<close>

subsection \<open>Data\<close>

type_synonym buffer = string
type_synonym uri = string

text \<open>An optional string that the source only tests for truthiness (\<open>config.java\<close>,
  \<open>diagram.path\<close>, \<open>diagram.dir\<close>, \<open>diagram.content\<close>) is a string here: the empty
  string and \<open>undefined\<close> are both falsy. \<open>format\<close> and \<open>savePath\<close> are options,
  \<open>None\<close> for \<open>undefined\<close>: \<open>savePath\<close> is handed to \<open>path.parse\<close>, which throws
  on \<open>undefined\<close> and not on the empty string.\<close>

definition truthy :: "string \<Rightarrow> bool" where
  "truthy s = (s \<noteq> [])"

record diagram =
  content :: string
  pageCount :: nat
  path :: string
  dir :: string
  parentUri :: uri
  title :: string

text \<open>The object returned by \<open>path.parse\<close>.\<close>

record parsed_path =
  p_root :: string
  p_dir :: string
  p_base :: string
  p_ext :: string
  p_name :: string

text \<open>The error with which \<open>processWrapper\<close> rejects: \<open>err.error\<close> and \<open>err.out\<close>.\<close>

record adapter_error =
  error :: string
  out :: string

datatype handle = EngineProcess nat | ConverterProcess nat

text \<open>What a promise of the task can be rejected with, or \<open>createTask\<close> can throw:
  the string of a failed preflight, the \<open>RenderError\<close> object of line 146, the
  \<open>TypeError\<close> of \<open>buffers.push\<close> on \<open>null\<close> (line 145), the \<open>TypeError\<close> of
  \<open>ws.uri\<close> on \<open>undefined\<close> (line 107), the error thrown by \<open>execFileSync\<close>
  (line 171), and the \<open>TypeError\<close> of \<open>path.parse\<close> on \<open>undefined\<close> (line 79).\<close>

datatype rejection =
    ConfigMessage string
  | RenderError string string
  | TypeErrorNullPush
  | TypeErrorNoWorkspace
  | ConverterError string
  | TypeErrorPathParse

datatype js_value = JsNull | JsUndefined | JsString string | JsBuffer buffer

datatype settled = Fulfilled js_value | Rejects rejection

text \<open>The promise of the task: resolved with \<open>buffers\<close> (\<open>None\<close> is \<open>null\<close>), or
  rejected.\<close>

datatype outcome = Resolved "buffer list option" | Rejected rejection

datatype event =
    Spawn nat string "string list"
  | ProcessesPush handle
  | StdinWrite nat string
  | StdinEnd nat
  | AdapterCall nat string
  | AdapterSettled nat "adapter_error + buffer"
  | ConverterSpawn nat string "string list"
  | ConsoleLog nat string
  | ConverterExecFileSync nat string "string list" "string option"

text \<open>The page in whose iteration or continuation an event happens.\<close>

fun page_of :: "event \<Rightarrow> nat" where
  "page_of (Spawn i _ _) = i"
| "page_of (ProcessesPush (EngineProcess i)) = i"
| "page_of (ProcessesPush (ConverterProcess i)) = i"
| "page_of (StdinWrite i _) = i"
| "page_of (StdinEnd i) = i"
| "page_of (AdapterCall i _) = i"
| "page_of (AdapterSettled i _) = i"
| "page_of (ConverterSpawn i _ _) = i"
| "page_of (ConsoleLog i _) = i"
| "page_of (ConverterExecFileSync i _ _ _) = i"

text \<open>The two effects of an iteration of the \<open>reduce\<close>: \<open>child_process.spawn\<close> of the
  engine (line 127) and \<open>processes.push\<close> (line 128).\<close>

fun is_launch :: "event \<Rightarrow> bool" where
  "is_launch (Spawn _ _ _) = True"
| "is_launch (ProcessesPush _) = True"
| "is_launch _ = False"

record env =
  \<comment> \<open>config\<close>
  java :: string
  jar :: "uri \<Rightarrow> string"
  includepaths :: "uri \<Rightarrow> string list"
  diagramsRoot :: "uri \<Rightarrow> string option"
  commandArgs :: "uri \<Rightarrow> string list"
  jarArgs :: "uri \<Rightarrow> string list"
  \<comment> \<open>common, tools, vscode, fs, path\<close>
  extensionPath :: string
  localize :: "nat \<Rightarrow> string list \<Rightarrow> string"
  addFileIndex :: "string \<Rightarrow> nat \<Rightarrow> nat \<Rightarrow> string"
  getWorkspaceFolder :: "uri \<Rightarrow> string option"
  existsSync :: "string \<Rightarrow> bool"
  path_parse :: "string \<Rightarrow> parsed_path"
  path_isAbsolute :: "string \<Rightarrow> bool"
  path_join :: "string \<Rightarrow> string \<Rightarrow> string"
  path_basename :: "string \<Rightarrow> string"
  path_sep :: string
  path_delimiter :: string
  \<comment> \<open>the outside world during the run\<close>
  killed :: "handle \<Rightarrow> bool"
  processWrapper :: "handle \<Rightarrow> string \<Rightarrow> adapter_error + buffer"
  execFileSync :: "string \<Rightarrow> string list \<Rightarrow> string option"

text \<open>
  \<open>killed env h\<close> is the value of \<open>process.killed\<close> that the continuation of the
  page of process \<open>h\<close> reads (line 133); \<open>processWrapper env h p\<close> is how the promise
  of \<open>processWrapper(process, p)\<close> settles for the process \<open>h\<close>;
  \<open>execFileSync env exe args\<close> is \<open>None\<close> when the blocking call returns and
  \<open>Some e\<close> when it throws \<open>e\<close> (as Node does on a non-zero exit code, a timeout or
  a missing executable); \<open>getWorkspaceFolder env u\<close> is the \<open>uri.fsPath\<close> of the
  workspace folder, \<open>None\<close> when the call returns \<open>undefined\<close>.
\<close>

record state =
  format :: "string option"
  savePath :: "string option"
  processes :: "handle list"
  buffers :: "buffer list option"
  trace :: "event list"
  snapshots :: "handle list list"

text \<open>\<open>snapshots\<close> is a ghost field: the value of \<open>processes\<close> after its declaration
  and after every iteration of the \<open>reduce\<close> and every continuation of the chain.\<close>

definition observe :: "state \<Rightarrow> state" where
  "observe st = st\<lparr>snapshots := snapshots st @ [processes st]\<rparr>"

text \<open>\<open>processes.push(process)\<close>, line 128, the only statement that changes the list:
  the handle is appended, and the trace records when.\<close>

definition push_process :: "handle \<Rightarrow> state \<Rightarrow> state" where
  "push_process h st =
     st\<lparr>processes := processes st @ [h], trace := trace st @ [ProcessesPush h]\<rparr>"

text \<open>What one iteration of the \<open>reduce\<close> leaves to its continuation: the constants
  \<open>index\<close>, \<open>origFormat\<close> and \<open>process\<close> of that iteration.\<close>

record link =
  index :: nat
  origFormat :: "string option"
  process :: handle

record render_task =
  task_processes :: "handle list option"
  promise :: outcome

datatype call = Throws rejection | Returns render_task

record run =
  result :: call
  final :: state

subsection \<open>Helpers\<close>

text \<open>The template literal of line 92: the decimal digits of \<open>index\<close>.\<close>

fun string_of_nat :: "nat \<Rightarrow> string" where
  "string_of_nat n =
     (if n < 10 then [''0123456789'' ! n]
      else string_of_nat (n div 10) @ [''0123456789'' ! (n mod 10)])"

declare string_of_nat.simps [simp del]

text \<open>\<open>path.format\<close> on an object that has only \<open>dir\<close>, \<open>name\<close> and \<open>ext\<close>, the
  only way the source calls it: the base is \<open>name + ext\<close>, and a non-empty \<open>dir\<close>
  is put in front of it with the separator.\<close>

definition path_format :: "string \<Rightarrow> string \<Rightarrow> string \<Rightarrow> string \<Rightarrow> string" where
  "path_format sep d n e = (if d = [] then n @ e else d @ sep @ n @ e)"

text \<open>Lines 103 to 110: the loop over the configured include folders. A relative folder
  is joined to the workspace folder; \<open>ws.uri\<close> throws when there is none.\<close>

fun includeFolders :: "env \<Rightarrow> string option \<Rightarrow> string \<Rightarrow> string list \<Rightarrow> rejection + string" where
  "includeFolders env ws includePath [] = Inr includePath"
| "includeFolders env ws includePath (folderPath # rest) =
     (if \<not> truthy folderPath then includeFolders env ws includePath rest
      else if \<not> path_isAbsolute env folderPath then
        (case ws of
           None \<Rightarrow> Inl TypeErrorNoWorkspace
         | Some fsPath \<Rightarrow>
             includeFolders env ws
               (includePath @ path_delimiter env @ path_join env fsPath folderPath) rest)
      else includeFolders env ws (includePath @ path_delimiter env @ folderPath) rest)"

text \<open>Lines 97 to 115.\<close>

definition includePathOf :: "env \<Rightarrow> diagram \<Rightarrow> rejection + string" where
  "includePathOf env d =
     (let includePath = (if truthy (dir d) \<and> path_isAbsolute env (dir d) then dir d else [])
      in case includeFolders env (getWorkspaceFolder env (parentUri d)) includePath
                (includepaths env (parentUri d)) of
           Inl e \<Rightarrow> Inl e
         | Inr ip \<Rightarrow>
             (case diagramsRoot env (parentUri d) of
                None \<Rightarrow> Inr ip
              | Some fsPath \<Rightarrow> Inr (ip @ path_delimiter env @ fsPath)))"

text \<open>Lines 87 to 95 and 117 to 126: the argument vector of the engine.\<close>

definition engineParams ::
  "env \<Rightarrow> diagram \<Rightarrow> string \<Rightarrow> string option \<Rightarrow> nat \<Rightarrow> string \<Rightarrow> string list" where
  "engineParams env d taskType fmt i includePath =
     commandArgs env (parentUri d)
     @ [''-Dplantuml.include.path='' @ includePath]
     @ [''-Djava.awt.headless=true'', ''-jar'', jar env (parentUri d),
        ''-pipeimageindex'', string_of_nat i, ''-charset'', ''utf-8'']
     @ [taskType]
     @ (case fmt of None \<Rightarrow> [] | Some f \<Rightarrow> if truthy f then [''-t'' @ f] else [])
     @ (if truthy (path d) then [''-filename'', path_basename env (path d)] else [])
     @ jarArgs env (parentUri d)"

subsection \<open>The synchronous phase: one iteration of the reduce (lines 73 to 128)\<close>

text \<open>Lines 76 to 85. \<open>path.parse\<close> throws when \<open>savePath\<close> is \<open>undefined\<close>.\<close>

definition swapFormat :: "env \<Rightarrow> state \<Rightarrow> rejection + state" where
  "swapFormat env st =
     (if format st = Some ''emf'' then
        (case savePath st of
           None \<Rightarrow> Inl TypeErrorPathParse
         | Some sp \<Rightarrow>
             (let savePathParsed = path_parse env sp
              in Inr (st\<lparr>format := Some ''svg'',
                        savePath := Some (path_format (path_sep env) (p_dir savePathParsed)
                                            (p_name savePathParsed) ''.svg'')\<rparr>)))
      else Inr st)"

definition launch_page ::
  "env \<Rightarrow> diagram \<Rightarrow> string \<Rightarrow> nat \<Rightarrow> state \<Rightarrow> (rejection + link) \<times> state" where
  "launch_page env d taskType i st =
     (let origFmt = format st
      in case swapFormat env st of
           Inl e \<Rightarrow> (Inl e, st)
         | Inr st1 \<Rightarrow>
             (case includePathOf env d of
                Inl e \<Rightarrow> (Inl e, st1)
              | Inr includePath \<Rightarrow>
                  (let params = engineParams env d taskType (format st1) i includePath;
                       proc = EngineProcess i;
                       st2 = st1\<lparr>trace := trace st1 @ [Spawn i (java env) params]\<rparr>
                   in (Inr \<lparr>index = i, origFormat = origFmt, process = proc\<rparr>,
                       push_process proc st2))))"

fun launch ::
  "env \<Rightarrow> diagram \<Rightarrow> string \<Rightarrow> nat list \<Rightarrow> state \<Rightarrow> (rejection + link list) \<times> state" where
  "launch env d taskType [] st = (Inr [], st)"
| "launch env d taskType (i # rest) st =
     (case launch_page env d taskType i st of
        (Inl e, st1) \<Rightarrow> (Inl e, st1)
      | (Inr l, st1) \<Rightarrow>
          (case launch env d taskType rest (observe st1) of
             (Inl e, st2) \<Rightarrow> (Inl e, st2)
           | (Inr ls, st2) \<Rightarrow> (Inr (l # ls), st2)))"

subsection \<open>The continuation of one page (lines 131 to 176)\<close>

text \<open>Lines 148 to 173: the second stage, run when \<open>origFormat\<close> is \<open>emf\<close>. The
  handle of the spawned converter stays in a local variable; the blocking call runs
  the converter a second time with the same arguments.\<close>

definition convert :: "env \<Rightarrow> nat \<Rightarrow> string \<Rightarrow> state \<Rightarrow> settled \<times> state" where
  "convert env i savePath2 st =
     (let inkscape = ''/usr/bin/inkscape'';
          svgInputFile = path_parse env savePath2;
          emfOutputFileName =
            path_format (path_sep env) (p_dir svgInputFile) (p_name svgInputFile) ''.emf'';
          params = [''--without-gui'', ''--export-emf='' @ emfOutputFileName, savePath2];
          thrown = execFileSync env inkscape params;
          st1 = st\<lparr>trace := trace st @
                  [ConverterSpawn i inkscape params,
                   ConsoleLog i (''Generating EMF file: input='' @ savePath2
                                 @ '', output='' @ emfOutputFileName),
                   ConverterExecFileSync i inkscape params thrown]\<rparr>
      in case thrown of
           Some e \<Rightarrow> (Rejects (ConverterError e), st1)
         | None \<Rightarrow> (Fulfilled (JsString []), st1))"

definition run_link :: "env \<Rightarrow> diagram \<Rightarrow> link \<Rightarrow> state \<Rightarrow> settled \<times> state" where
  "run_link env d l st =
     (let i = index l in
      if killed env (process l) then (Fulfilled JsNull, st\<lparr>buffers := None\<rparr>)
      else
        (let st1 = (if truthy (content d)
                    then st\<lparr>trace := trace st @ [StdinWrite i (content d), StdinEnd i]\<rparr>
                    else st);
             savePath2 = (case savePath st of
                            None \<Rightarrow> []
                          | Some sp \<Rightarrow>
                              if truthy sp then addFileIndex env sp i (pageCount d) else []);
             st2 = st1\<lparr>trace := trace st1 @ [AdapterCall i savePath2]\<rparr>
         in case processWrapper env (process l) savePath2 of
              Inl err \<Rightarrow>
                (Rejects (RenderError (localize env 10 [title d, error err]) (out err)),
                 st2\<lparr>trace := trace st2 @ [AdapterSettled i (Inl err)]\<rparr>)
            | Inr stdout \<Rightarrow>
                (let st3 = st2\<lparr>trace := trace st2 @ [AdapterSettled i (Inr stdout)]\<rparr>
                 in case buffers st3 of
                      None \<Rightarrow> (Rejects TypeErrorNullPush, st3)
                    | Some bs \<Rightarrow>
                        (let st4 = st3\<lparr>buffers := Some (bs @ [stdout])\<rparr>
                         in if origFormat l = Some ''emf''
                            then convert env i savePath2 st4
                            else (Fulfilled JsUndefined, st4)))))"

subsection \<open>The chain (lines 130 and 177 to 180) and the task (lines 57 to 199)\<close>

text \<open>\<open>pChain.then(onFulfilled, onRejected)\<close>: a fulfilled predecessor runs the
  continuation of the page, a rejected one is passed on by \<open>onRejected\<close>.\<close>

fun chain :: "env \<Rightarrow> diagram \<Rightarrow> link list \<Rightarrow> settled \<Rightarrow> state \<Rightarrow> settled \<times> state" where
  "chain env d [] p st = (p, st)"
| "chain env d (l # ls) (Fulfilled v) st =
     (case run_link env d l st of (p1, st1) \<Rightarrow> chain env d ls p1 (observe st1))"
| "chain env d (l # ls) (Rejects err) st = chain env d ls (Rejects err) st"

definition initial :: "string option \<Rightarrow> string option \<Rightarrow> state" where
  "initial savePath0 format0 =
     \<lparr>format = format0, savePath = savePath0, processes = [], buffers = Some [],
      trace = [], snapshots = [[]]\<rparr>"

definition createTask ::
  "env \<Rightarrow> diagram \<Rightarrow> string \<Rightarrow> string option \<Rightarrow> string option \<Rightarrow> run" where
  "createTask env d taskType savePath0 format0 =
     (if \<not> truthy (java env) then
        \<lparr>result = Returns \<lparr>task_processes = None,
                            promise = Rejected (ConfigMessage (localize env 5 []))\<rparr>,
         final = (initial savePath0 format0)\<lparr>snapshots := []\<rparr>\<rparr>
      else if \<not> existsSync env (jar env (parentUri d)) then
        \<lparr>result = Returns \<lparr>task_processes = None,
                            promise = Rejected (ConfigMessage (localize env 6 [extensionPath env]))\<rparr>,
         final = (initial savePath0 format0)\<lparr>snapshots := []\<rparr>\<rparr>
      else
        (case launch env d taskType [0..<pageCount d] (initial savePath0 format0) of
           (Inl e, st1) \<Rightarrow> \<lparr>result = Throws e, final = st1\<rparr>
         | (Inr links, st1) \<Rightarrow>
             (case chain env d links (Fulfilled (JsBuffer [])) st1 of
                (p, st2) \<Rightarrow>
                  \<lparr>result = Returns
                     \<lparr>task_processes = Some (processes st2),
                      promise = (case p of
                                   Fulfilled v \<Rightarrow> Resolved (buffers st2)
                                 | Rejects err \<Rightarrow> Rejected err)\<rparr>,
                   final = st2\<rparr>)))"

text \<open>The public entry points (lines 50 to 56).\<close>

definition render :: "env \<Rightarrow> diagram \<Rightarrow> string \<Rightarrow> string option \<Rightarrow> run" where
  "render env d fmt savePath0 = createTask env d ''-pipe'' savePath0 (Some fmt)"

definition getMapData :: "env \<Rightarrow> diagram \<Rightarrow> string option \<Rightarrow> run" where
  "getMapData env d savePath0 = createTask env d ''-pipemap'' savePath0 None"

subsection \<open>Observations on traces\<close>

text \<open>The events that a part of the run appends to the trace.\<close>

definition emitted :: "state \<Rightarrow> state \<Rightarrow> event list" where
  "emitted st st1 = drop (length (trace st)) (trace st1)"

text \<open>A failure of the outside world: \<open>processWrapper\<close> rejects, or \<open>execFileSync\<close>
  throws.\<close>

fun failed :: "event \<Rightarrow> bool" where
  "failed (AdapterSettled _ (Inl _)) = True"
| "failed (ConverterExecFileSync _ _ _ (Some _)) = True"
| "failed _ = False"





subsection \<open>Concrete runs\<close>

text \<open>The promise of the task that \<open>createTask\<close> returns, \<open>None\<close> when it throws.\<close>

definition settled_promise :: "run \<Rightarrow> outcome option" where
  "settled_promise r = (case result r of Returns t \<Rightarrow> Some (promise t) | Throws e \<Rightarrow> None)"

text \<open>A configuration, a platform and an outside world in which everything succeeds, and a
  diagram of two pages. \<open>path.parse\<close> and \<open>addFileIndex\<close> are given by their values
  on the paths that occur.\<close>

definition demo_parse :: "string \<Rightarrow> parsed_path" where
  "demo_parse p =
     (if p = ''/out/d.emf'' then
        \<lparr>p_root = ''/'', p_dir = ''/out'', p_base = ''d.emf'', p_ext = ''.emf'', p_name = ''d''\<rparr>
      else if p = ''/out/d.svg'' then
        \<lparr>p_root = ''/'', p_dir = ''/out'', p_base = ''d.svg'', p_ext = ''.svg'', p_name = ''d''\<rparr>
      else if p = ''/out/d-page1.svg'' then
        \<lparr>p_root = ''/'', p_dir = ''/out'', p_base = ''d-page1.svg'', p_ext = ''.svg'',
         p_name = ''d-page1''\<rparr>
      else if p = ''/out/d-page2.svg'' then
        \<lparr>p_root = ''/'', p_dir = ''/out'', p_base = ''d-page2.svg'', p_ext = ''.svg'',
         p_name = ''d-page2''\<rparr>
      else \<lparr>p_root = [], p_dir = [], p_base = p, p_ext = [], p_name = p\<rparr>)"

definition demo_addFileIndex :: "string \<Rightarrow> nat \<Rightarrow> nat \<Rightarrow> string" where
  "demo_addFileIndex p i n =
     (if n = 1 then p
      else if p = ''/out/d.svg'' then ''/out/d-page'' @ string_of_nat (Suc i) @ ''.svg''
      else p)"

definition demo_env :: env where
  "demo_env =
     \<lparr>java = ''java'', jar = (\<lambda>u. ''/ext/plantuml.jar''), includepaths = (\<lambda>u. []),
      diagramsRoot = (\<lambda>u. None), commandArgs = (\<lambda>u. []), jarArgs = (\<lambda>u. []),
      extensionPath = ''/ext'',
      localize = (\<lambda>n args. concat (string_of_nat n # map (\<lambda>a. '':'' @ a) args)),
      addFileIndex = demo_addFileIndex,
      getWorkspaceFolder = (\<lambda>u. Some ''/ws''), existsSync = (\<lambda>p. True),
      path_parse = demo_parse, path_isAbsolute = (\<lambda>p. take 1 p = ''/''),
      path_join = (\<lambda>a b. a @ ''/'' @ b), path_basename = (\<lambda>p. p_base (demo_parse p)),
      path_sep = ''/'', path_delimiter = '':'',
      killed = (\<lambda>h. False),
      processWrapper = (\<lambda>h p. Inr (case h of EngineProcess i \<Rightarrow> ''svg'' @ string_of_nat i
                                      | ConverterProcess i \<Rightarrow> [])),
      execFileSync = (\<lambda>exe args. None)\<rparr>"

definition demo_diagram :: diagram where
  "demo_diagram =
     \<lparr>content = ''@startuml'', pageCount = 2, path = [], dir = ''/ws'',
      parentUri = ''file:///ws/d.puml'', title = ''Demo''\<rparr>"

definition one_page :: diagram where
  "one_page = demo_diagram\<lparr>pageCount := 1\<rparr>"

text \<open>The same world with a converter that fails, with the process of the first page found
  killed, with an adapter that rejects, and with a relative include folder but no
  workspace folder.\<close>

definition converter_fails_env :: env where
  "converter_fails_env = demo_env\<lparr>execFileSync := (\<lambda>exe args. Some ''exit code 1'')\<rparr>"

definition first_killed_env :: env where
  "first_killed_env = demo_env\<lparr>killed := (\<lambda>h. h = EngineProcess 0)\<rparr>"

definition adapter_fails_env :: env where
  "adapter_fails_env = demo_env\<lparr>processWrapper :=
     (\<lambda>h p. if h = EngineProcess 0 then Inl \<lparr>error = ''boom'', out = ''partial''\<rparr>
            else Inr ''late'')\<rparr>"

definition no_workspace_env :: env where
  "no_workspace_env =
     demo_env\<lparr>includepaths := (\<lambda>u. [''include'']), getWorkspaceFolder := (\<lambda>u. None)\<rparr>"

section \<open>Lemmas\<close>

lemma emitted_eq: "trace st1 = trace st @ evs \<Longrightarrow> emitted st st1 = evs"
  by (simp add: emitted_def)

lemma emitted_self [simp]: "emitted st st = []"
  by (simp add: emitted_def)

lemma observe_fields [simp]:
  "trace (observe st) = trace st" "processes (observe st) = processes st"
  "buffers (observe st) = buffers st" "savePath (observe st) = savePath st"
  "format (observe st) = format st"
  "snapshots (observe st) = snapshots st @ [processes st]"
  by (simp_all add: observe_def)

subsection \<open>One continuation\<close>

lemma run_link_frame:
  assumes "run_link env d l st = (p, st1)"
  shows "processes st1 = processes st" "savePath st1 = savePath st"
    "format st1 = format st" "snapshots st1 = snapshots st"
  using assms
  by (auto simp: run_link_def convert_def Let_def split: if_splits sum.splits option.splits)

lemma run_link_trace:
  assumes "run_link env d l st = (p, st1)"
  shows "trace st1 = trace st @ emitted st st1"
  using assms
  by (auto simp: run_link_def convert_def Let_def emitted_def split: if_splits sum.splits option.splits)

lemma run_link_events:
  assumes "run_link env d l st = (p, st1)" "e \<in> set (emitted st st1)"
  shows "page_of e = index l" "\<not> is_launch e" "\<not> killed env (process l)"
  using assms
  by (auto simp: run_link_def convert_def Let_def emitted_def split: if_splits sum.splits option.splits)

lemma run_link_killed:
  assumes "killed env (process l)"
  shows "run_link env d l st = (Fulfilled JsNull, st\<lparr>buffers := None\<rparr>)"
  using assms by (simp add: run_link_def)

lemma run_link_fulfilled:
  assumes "run_link env d l st = (Fulfilled v, st1)" "\<not> killed env (process l)"
  shows "\<exists>b bs. AdapterSettled (index l) (Inr b) \<in> set (emitted st st1)
           \<and> buffers st = Some bs \<and> buffers st1 = Some (bs @ [b])"
    and "origFormat l = Some ''emf'' \<Longrightarrow>
           \<exists>exe args. ConverterExecFileSync (index l) exe args None \<in> set (emitted st st1)"
  using assms
  by (auto simp: run_link_def convert_def Let_def emitted_def split: if_splits sum.splits option.splits)

lemma run_link_adapter_failed:
  assumes "run_link env d l st = (p, st1)" "AdapterSettled k (Inl err) \<in> set (emitted st st1)"
  shows "p = Rejects (RenderError (localize env 10 [title d, error err]) (out err))"
  using assms
  by (auto simp: run_link_def convert_def Let_def emitted_def split: if_splits sum.splits option.splits)

lemma run_link_converter_failed:
  assumes "run_link env d l st = (p, st1)"
    "ConverterExecFileSync k exe args (Some e) \<in> set (emitted st st1)"
  shows "p = Rejects (ConverterError e)"
  using assms
  by (auto simp: run_link_def convert_def Let_def emitted_def split: if_splits sum.splits option.splits)

lemma run_link_null_buffers:
  assumes "run_link env d l st = (Fulfilled v, st1)" "buffers st = None"
  shows "buffers st1 = None"
  using assms
  by (auto simp: run_link_def convert_def Let_def split: if_splits sum.splits option.splits)

lemma run_link_no_failure:
  assumes "run_link env d l st = (Rejects r, st1)" "buffers st \<noteq> None"
  shows "(\<exists>err. AdapterSettled (index l) (Inl err) \<in> set (emitted st st1))
       \<or> (\<exists>exe args e. ConverterExecFileSync (index l) exe args (Some e) \<in> set (emitted st st1))"
  using assms
  by (auto simp: run_link_def convert_def Let_def emitted_def split: if_splits sum.splits option.splits)

lemma run_link_not_failed:
  assumes "run_link env d l st = (Rejects r, st1)" "buffers st \<noteq> None"
  shows "\<exists>e\<in>set (emitted st st1). failed e"
  using run_link_no_failure [OF assms] by force


subsection \<open>The chain\<close>

lemma chain_rejects [simp]: "chain env d ls (Rejects r) st = (Rejects r, st)"
  by (induction ls) simp_all

lemma chain_step:
  assumes "chain env d (l # ls) (Fulfilled v) st = (p', st')"
  shows "\<exists>p1 st1. run_link env d l st = (p1, st1)
           \<and> chain env d ls p1 (observe st1) = (p', st')"
  using assms by (cases "run_link env d l st") simp

lemma chain_frame:
  assumes "chain env d ls p st = (p', st')"
  shows "processes st' = processes st \<and> savePath st' = savePath st \<and> format st' = format st"
  using assms
proof (induction ls arbitrary: p st)
  case Nil
  then show ?case by simp
next
  case (Cons l ls)
  show ?case
  proof (cases p)
    case (Fulfilled v)
    with Cons.prems(1) have "chain env d (l # ls) (Fulfilled v) st = (p', st')" by simp
    from chain_step [OF this] obtain p1 st1 where r: "run_link env d l st = (p1, st1)"
      and c: "chain env d ls p1 (observe st1) = (p', st')"
      by blast
    from Cons.IH [OF c] run_link_frame [OF r] show ?thesis by simp
  next
    case (Rejects r)
    with Cons.prems show ?thesis by simp
  qed
qed

lemma chain_trace:
  assumes "chain env d ls p st = (p', st')"
  shows "trace st' = trace st @ emitted st st'"
  using assms
proof (induction ls arbitrary: p st)
  case Nil
  then show ?case by simp
next
  case (Cons l ls)
  show ?case
  proof (cases p)
    case (Fulfilled v)
    with Cons.prems(1) have "chain env d (l # ls) (Fulfilled v) st = (p', st')" by simp
    from chain_step [OF this] obtain p1 st1 where r: "run_link env d l st = (p1, st1)"
      and c: "chain env d ls p1 (observe st1) = (p', st')"
      by blast
    from Cons.IH [OF c] run_link_trace [OF r]
    have e: "trace st' = trace st @ (emitted st st1 @ emitted (observe st1) st')" by simp
    from emitted_eq [OF e] e show ?thesis by simp
  next
    case (Rejects r)
    with Cons.prems show ?thesis by simp
  qed
qed

lemma chain_emitted_Cons:
  assumes "run_link env d l st = (p1, st1)" "chain env d ls p1 (observe st1) = (p', st')"
  shows "emitted st st' = emitted st st1 @ emitted (observe st1) st'"
proof -
  from chain_trace [OF assms(2)] run_link_trace [OF assms(1)]
  have "trace st' = trace st @ (emitted st st1 @ emitted (observe st1) st')" by simp
  then show ?thesis by (rule emitted_eq)
qed

lemma chain_events:
  assumes "chain env d ls p st = (p', st')" "e \<in> set (emitted st st')"
  shows "\<not> is_launch e \<and> (\<exists>l\<in>set ls. index l = page_of e \<and> \<not> killed env (process l))"
  using assms
proof (induction ls arbitrary: p st)
  case Nil
  then show ?case by simp
next
  case (Cons l ls)
  show ?case
  proof (cases p)
    case (Fulfilled v)
    with Cons.prems(1) have "chain env d (l # ls) (Fulfilled v) st = (p', st')" by simp
    from chain_step [OF this] obtain p1 st1 where r: "run_link env d l st = (p1, st1)"
      and c: "chain env d ls p1 (observe st1) = (p', st')"
      by blast
    from Cons.prems(2) chain_emitted_Cons [OF r c]
    consider "e \<in> set (emitted st st1)" | "e \<in> set (emitted (observe st1) st')" by auto
    then show ?thesis
    proof cases
      case 1
      with run_link_events [OF r] show ?thesis by auto
    next
      case 2
      with Cons.IH [OF c] show ?thesis by auto
    qed
  next
    case (Rejects r)
    with Cons.prems show ?thesis by simp
  qed
qed

lemma chain_sorted:
  assumes "chain env d ls p st = (p', st')" "sorted_wrt (<) (map index ls)"
  shows "sorted (map page_of (emitted st st'))"
  using assms
proof (induction ls arbitrary: p st)
  case Nil
  then show ?case by simp
next
  case (Cons l ls)
  show ?case
  proof (cases p)
    case (Fulfilled v)
    with Cons.prems(1) have "chain env d (l # ls) (Fulfilled v) st = (p', st')" by simp
    from chain_step [OF this] obtain p1 st1 where r: "run_link env d l st = (p1, st1)"
      and c: "chain env d ls p1 (observe st1) = (p', st')"
      by blast
    from Cons.prems(2) have s: "sorted_wrt (<) (map index ls)"
      and lt: "\<forall>l'\<in>set ls. index l < index l'" by auto
    have h: "\<forall>e\<in>set (emitted st st1). page_of e = index l"
      using run_link_events(1) [OF r] by blast
    have t: "\<forall>e\<in>set (emitted (observe st1) st'). index l < page_of e"
      using chain_events [OF c] lt by metis
    have "sorted (map page_of (emitted st st1))"
      using h by (simp add: sorted_wrt_iff_nth_less nth_mem del: sorted_wrt_map) 
    with Cons.IH [OF c s] h t show ?thesis
      by (simp add: chain_emitted_Cons [OF r c] sorted_append) (metis less_imp_le)
  next
    case (Rejects r)
    with Cons.prems show ?thesis by simp
  qed
qed

lemma chain_induct [consumes 1, case_names Nil Rejects Step]:
  assumes c: "chain env d ls p st = (p', st')"
    and nil: "P [] p' st'"
    and rej: "\<And>l ls r. p' = Rejects r \<Longrightarrow> P (l # ls) (Rejects r) st'"
    and step: "\<And>l ls v st p1 st1.
        run_link env d l st = (p1, st1) \<Longrightarrow>
        chain env d ls p1 (observe st1) = (p', st') \<Longrightarrow>
        emitted st st' = emitted st st1 @ emitted (observe st1) st' \<Longrightarrow>
        P ls p1 (observe st1) \<Longrightarrow> P (l # ls) (Fulfilled v) st"
  shows "P ls p st"
  using c
proof (induction ls arbitrary: p st)
  case Nil
  with nil show ?case by simp
next
  case (Cons l ls)
  show ?case
  proof (cases p)
    case (Fulfilled v)
    with Cons.prems(1) have "chain env d (l # ls) (Fulfilled v) st = (p', st')" by simp
    from chain_step [OF this] obtain p1 st1 where r: "run_link env d l st = (p1, st1)"
      and c1: "chain env d ls p1 (observe st1) = (p', st')"
      by blast
    from step [OF r c1 chain_emitted_Cons [OF r c1] Cons.IH [OF c1]] Fulfilled
    show ?thesis by simp
  next
    case (Rejects r)
    with Cons.prems have "p' = Rejects r" "st' = st" by simp_all
    with rej Rejects show ?thesis by simp
  qed
qed

lemma chain_reach:
  assumes "chain env d ls p st = (p', st')"
    and "sorted_wrt (<) (map index ls)"
    and "e \<in> set (emitted st st')" "l \<in> set ls" "index l < page_of e"
  shows "killed env (process l)
       \<or> ((\<exists>b. AdapterSettled (index l) (Inr b) \<in> set (emitted st st'))
          \<and> (origFormat l = Some ''emf'' \<longrightarrow>
               (\<exists>exe args. ConverterExecFileSync (index l) exe args None \<in> set (emitted st st'))))"
  using assms
proof (induction rule: chain_induct)
  case Nil
  then show ?case by simp
next
  case (Rejects h t r)
  then show ?case by simp
next
  case (Step h t v st p1 st1)
  let ?A = "emitted st st1" and ?B = "emitted (observe st1) st'"
  from Step.prems(1) have s: "sorted_wrt (<) (map index t)"
    and lt: "\<forall>l'\<in>set t. index h < index l'" by auto
  have inB: "e \<in> set ?B"
  proof (rule ccontr)
    assume "e \<notin> set ?B"
    with Step.prems(2) Step.hyps(3) have "e \<in> set ?A" by simp
    with run_link_events(1) [OF Step.hyps(1)] have "page_of e = index h" by blast
    with Step.prems(3,4) lt show False by auto
  qed
  then obtain v1 where p1: "p1 = Fulfilled v1"
    using Step.hyps(2) by (cases p1) auto
  show ?case
  proof (cases "l = h")
    case True
    show ?thesis
    proof (cases "killed env (process h)")
      case True
      with \<open>l = h\<close> show ?thesis by simp
    next
      case False
      from run_link_fulfilled [OF Step.hyps(1) [unfolded p1] False] True Step.hyps(3)
      show ?thesis by auto
    qed
  next
    case False
    with Step.prems(3) have "l \<in> set t" by simp
    from Step.IH [OF s inB this Step.prems(4)] Step.hyps(3) show ?thesis by auto
  qed
qed

lemma chain_adapter_failed:
  assumes "chain env d ls p st = (p', st')"
    and "sorted_wrt (<) (map index ls)"
    and "AdapterSettled k (Inl err) \<in> set (emitted st st')"
  shows "p' = Rejects (RenderError (localize env 10 [title d, error err]) (out err))
       \<and> (\<forall>e\<in>set (emitted st st'). page_of e \<le> k)"
  using assms
proof (induction rule: chain_induct)
  case Nil
  then show ?case by simp
next
  case (Rejects h t r)
  then show ?case by simp
next
  case (Step h t v st p1 st1)
  let ?A = "emitted st st1" and ?B = "emitted (observe st1) st'"
  let ?f = "AdapterSettled k (Inl err)"
  from Step.prems(1) have s: "sorted_wrt (<) (map index t)"
    and lt: "\<forall>l'\<in>set t. index h < index l'" by auto
  have hA: "\<forall>e\<in>set ?A. page_of e = index h"
    using run_link_events(1) [OF Step.hyps(1)] by blast
  show ?case
  proof (cases "?f \<in> set ?A")
    case True
    from run_link_adapter_failed [OF Step.hyps(1) True]
    have p1: "p1 = Rejects (RenderError (localize env 10 [title d, error err]) (out err))" .
    with Step.hyps(2) have "p' = p1" "?B = []" by simp_all
    moreover from hA True have "index h = k" by fastforce
    ultimately show ?thesis using p1 hA Step.hyps(3) by simp
  next
    case False
    with Step.prems(2) Step.hyps(3) have inB: "?f \<in> set ?B" by simp
    from chain_events [OF Step.hyps(2) inB] lt have "index h < k" by auto
    with Step.IH [OF s inB] hA Step.hyps(3) show ?thesis by auto
  qed
qed

lemma chain_converter_failed:
  assumes "chain env d ls p st = (p', st')"
    and "ConverterExecFileSync k exe args (Some e) \<in> set (emitted st st')"
  shows "p' = Rejects (ConverterError e)"
  using assms
proof (induction rule: chain_induct)
  case Nil
  then show ?case by simp
next
  case (Rejects h t r)
  then show ?case by simp
next
  case (Step h t v st p1 st1)
  let ?A = "emitted st st1" and ?B = "emitted (observe st1) st'"
  show ?case
  proof (cases "ConverterExecFileSync k exe args (Some e) \<in> set ?A")
    case True
    from run_link_converter_failed [OF Step.hyps(1) True] Step.hyps(2)
    show ?thesis by simp
  next
    case False
    with Step.prems Step.hyps(3) Step.IH show ?thesis by simp
  qed
qed

lemma chain_null_buffers:
  assumes "chain env d ls p st = (p', st')"
    and "p' = Fulfilled v'"
    and "buffers st = None \<or> (\<exists>l\<in>set ls. killed env (process l))"
  shows "buffers st' = None"
  using assms
proof (induction rule: chain_induct)
  case Nil
  then show ?case by simp
next
  case (Rejects h t r)
  then show ?case by simp
next
  case (Step h t v st p1 st1)
  from Step.hyps(2) Step.prems(1) obtain v1 where p1: "p1 = Fulfilled v1"
    by (cases p1) auto
  have "buffers (observe st1) = None \<or> (\<exists>l\<in>set t. killed env (process l))"
  proof (cases "killed env (process h)")
    case True
    from run_link_killed [OF True] Step.hyps(1) show ?thesis by auto
  next
    case False
    show ?thesis
    proof (cases "buffers st = None")
      case True
      from run_link_null_buffers [OF Step.hyps(1) [unfolded p1] True] show ?thesis by simp
    next
      case False
      with Step.prems(2) \<open>\<not> killed env (process h)\<close> show ?thesis by auto
    qed
  qed
  from Step.IH [OF Step.prems(1) this] show ?case .
qed

lemma chain_buffers:
  assumes "chain env d ls p st = (p', st')"
    and "p' = Fulfilled v'" "buffers st' = Some bs'"
  shows "\<exists>bs outs. buffers st = Some bs \<and> bs' = bs @ outs
           \<and> list_all2 (\<lambda>l b. AdapterSettled (index l) (Inr b) \<in> set (emitted st st')) ls outs"
  using assms
proof (induction rule: chain_induct)
  case Nil
  then show ?case by simp
next
  case (Rejects h t r)
  then show ?case by simp
next
  case (Step h t v st p1 st1)
  let ?A = "emitted st st1" and ?B = "emitted (observe st1) st'"
  from Step.hyps(2) Step.prems(1) obtain v1 where p1: "p1 = Fulfilled v1"
    by (cases p1) auto
  have nk: "\<not> killed env (process h)"
  proof
    assume "killed env (process h)"
    then have "buffers st \<noteq> buffers st \<or> (\<exists>l\<in>set (h # t). killed env (process l))" by simp
    moreover have "chain env d (h # t) (Fulfilled v) st = (p', st')"
      using Step.hyps(1,2) by simp
    ultimately have "buffers st' = None"
      using chain_null_buffers [of env d "h # t" "Fulfilled v" st p' st' v'] Step.prems(1)
      by simp
    with Step.prems(2) show False by simp
  qed
  from run_link_fulfilled(1) [OF Step.hyps(1) [unfolded p1] nk]
  obtain b bs where b: "AdapterSettled (index h) (Inr b) \<in> set ?A"
    and bs: "buffers st = Some bs" "buffers st1 = Some (bs @ [b])" by blast
  from Step.IH [OF Step.prems] bs obtain outs1 where o: "bs' = (bs @ [b]) @ outs1"
    and l: "list_all2 (\<lambda>l b. AdapterSettled (index l) (Inr b) \<in> set ?B) t outs1"
    by auto
  from l have "list_all2 (\<lambda>l b. AdapterSettled (index l) (Inr b) \<in> set (?A @ ?B)) t outs1"
    by (rule list_all2_mono) simp
  with b have "list_all2 (\<lambda>l b. AdapterSettled (index l) (Inr b) \<in> set (?A @ ?B))
                 (h # t) (b # outs1)" by simp
  with o bs Step.hyps(3) show ?case by auto
qed

lemma chain_no_failure:
  assumes "chain env d ls p st = (p', st')"
    and "\<exists>v. p = Fulfilled v"
    and "\<forall>e\<in>set (emitted st st'). \<not> failed e"
    and "sorted_wrt (\<lambda>a b. killed env (process a) \<longrightarrow> killed env (process b)) ls"
    and "buffers st = None \<longrightarrow> (\<forall>l\<in>set ls. killed env (process l))"
  shows "\<exists>v'. p' = Fulfilled v'"
  using assms
proof (induction rule: chain_induct)
  case Nil
  then show ?case by simp
next
  case (Rejects h t r)
  then show ?case by simp
next
  case (Step h t v0 st p1 st1)
  from Step.prems(3) have s: "sorted_wrt (\<lambda>a b. killed env (process a) \<longrightarrow> killed env (process b)) t"
    and kt: "\<forall>l\<in>set t. killed env (process h) \<longrightarrow> killed env (process l)" by simp_all
  from Step.prems(2) have nfA: "\<forall>e\<in>set (emitted st st1). \<not> failed e"
    and nfB: "\<forall>e\<in>set (emitted (observe st1) st'). \<not> failed e"
    unfolding Step.hyps(3) by simp_all
  have "(\<exists>v1. p1 = Fulfilled v1)
          \<and> (buffers (observe st1) = None \<longrightarrow> (\<forall>l\<in>set t. killed env (process l)))"
  proof (cases "killed env (process h)")
    case True
    from Step.hyps(1) have "p1 = Fulfilled JsNull" 
      unfolding run_link_killed [OF True] by simp
    with kt True show ?thesis by simp
  next
    case False
    with Step.prems(4) have b: "buffers st \<noteq> None" by auto
    show ?thesis
    proof (cases p1)
      case (Fulfilled v1)
      from run_link_fulfilled(1) [OF Step.hyps(1) [unfolded Fulfilled] False]
      have "buffers (observe st1) \<noteq> None" by auto
      with Fulfilled show ?thesis by auto
    next
      case (Rejects r)
      from run_link_not_failed [OF Step.hyps(1) [unfolded Rejects] b] nfA
      show ?thesis by blast
    qed
  qed
  then have p1: "\<exists>v1. p1 = Fulfilled v1"
    and k: "buffers (observe st1) = None \<longrightarrow> (\<forall>l\<in>set t. killed env (process l))" by simp_all
  from Step.IH [OF p1 nfB s k] show ?case .
qed

lemma chain_keeps_buffers:
  assumes "chain env d ls p st = (p', st')"
    and "p' = Fulfilled v'" "buffers st \<noteq> None" "\<forall>l\<in>set ls. \<not> killed env (process l)"
  shows "buffers st' \<noteq> None"
  using assms
proof (induction rule: chain_induct)
  case Nil
  then show ?case by simp
next
  case (Rejects h t r)
  then show ?case by simp
next
  case (Step h t v st p1 st1)
  from Step.hyps(2) Step.prems(1) obtain v1 where p1: "p1 = Fulfilled v1"
    by (cases p1) auto
  from Step.prems(3) have nk: "\<not> killed env (process h)" by simp
  from run_link_fulfilled(1) [OF Step.hyps(1) [unfolded p1] nk]
  have "buffers (observe st1) \<noteq> None" by auto
  from Step.IH [OF Step.prems(1) this] Step.prems(3) show ?case by simp
qed

lemma chain_snapshots:
  assumes "chain env d ls p st = (p', st')"
    and "sorted_wrt prefix (snapshots st @ [processes st])"
  shows "sorted_wrt prefix (snapshots st' @ [processes st'])"
  using assms
proof (induction rule: chain_induct)
  case Nil
  then show ?case by simp
next
  case (Rejects h t r)
  then show ?case by simp
next
  case (Step h t v st p1 st1)
  from run_link_frame [OF Step.hyps(1)] Step.prems
  have "sorted_wrt prefix (snapshots (observe st1) @ [processes (observe st1)])"
    by (auto simp: sorted_wrt_append)
  from Step.IH [OF this] show ?case .
qed


subsection \<open>The synchronous phase\<close>

lemma push_process_fields [simp]:
  "processes (push_process h st) = processes st @ [h]"
  "trace (push_process h st) = trace st @ [ProcessesPush h]"
  "buffers (push_process h st) = buffers st" "snapshots (push_process h st) = snapshots st"
  "format (push_process h st) = format st" "savePath (push_process h st) = savePath st"
  by (simp_all add: push_process_def)

lemma swapFormat_done:
  assumes "swapFormat env st = Inr st1"
  shows "format st1 \<noteq> Some ''emf''" "processes st1 = processes st" "trace st1 = trace st"
    "buffers st1 = buffers st" "snapshots st1 = snapshots st"
  using assms by (auto simp: swapFormat_def Let_def split: if_splits option.splits)

lemma swapFormat_steady:
  assumes "format st \<noteq> Some ''emf''"
  shows "swapFormat env st = Inr st"
  using assms by (simp add: swapFormat_def)

text \<open>An iteration either throws before it has spawned anything, or spawns the process of
  its page and appends the handle.\<close>

lemma launch_page_cases:
  assumes "launch_page env d tt i st = (r, st')"
  obtains e where "r = Inl e" "processes st' = processes st" "trace st' = trace st"
      "snapshots st' = snapshots st" "buffers st' = buffers st"
  | ip st1 where "swapFormat env st = Inr st1" "includePathOf env d = Inr ip"
      "r = Inr \<lparr>index = i, origFormat = format st, process = EngineProcess i\<rparr>"
      "st' = push_process (EngineProcess i)
               (st1\<lparr>trace := trace st1 @
                  [Spawn i (java env) (engineParams env d tt (format st1) i ip)]\<rparr>)"
proof (cases "swapFormat env st")
  case (Inl e)
  with assms that(1) [of e] show ?thesis by (simp add: launch_page_def)
next
  case (Inr st1)
  note sw = swapFormat_done [OF Inr]
  show ?thesis
  proof (cases "includePathOf env d")
    case (Inl e)
    with assms Inr sw that(1) [of e] show ?thesis by (simp add: launch_page_def)
  next
    case ip: (Inr ip)
    with assms Inr that(2) [of st1 ip] show ?thesis by (simp add: launch_page_def Let_def)
  qed
qed

text \<open>Once the format is not \<open>emf\<close> and the include path is there, no iteration throws.\<close>

lemma launch_steady:
  assumes "includePathOf env d = Inr ip" "format st \<noteq> Some ''emf''"
    and "launch env d tt is st = (r, st')"
  shows "\<exists>ls. r = Inr ls \<and> map index ls = is
           \<and> (\<forall>l\<in>set ls. process l = EngineProcess (index l))
           \<and> processes st' = processes st @ map EngineProcess is
           \<and> trace st' = trace st @ concat (map (\<lambda>i.
                 [Spawn i (java env) (engineParams env d tt (format st) i ip),
                  ProcessesPush (EngineProcess i)]) is)
           \<and> buffers st' = buffers st"
  using assms(2,3)
proof (induction "is" arbitrary: st r st')
  case Nil
  then show ?case by auto
next
  case (Cons i rest)
  let ?l = "\<lparr>index = i, origFormat = format st, process = EngineProcess i\<rparr>"
  let ?st1 = "push_process (EngineProcess i)
     (st\<lparr>trace := trace st @ [Spawn i (java env) (engineParams env d tt (format st) i ip)]\<rparr>)"
  have p: "launch_page env d tt i st = (Inr ?l, ?st1)"
    using assms(1) swapFormat_steady [OF Cons.prems(1)] by (simp add: launch_page_def Let_def)
  obtain r2 st2 where t: "launch env d tt rest (observe ?st1) = (r2, st2)"
    by (cases "launch env d tt rest (observe ?st1)") auto
  have f: "format (observe ?st1) \<noteq> Some ''emf''" using Cons.prems(1) by simp
  from Cons.IH [OF f t] obtain ls where ls: "r2 = Inr ls" "map index ls = rest"
    "\<forall>l\<in>set ls. process l = EngineProcess (index l)"
    "processes st2 = processes (observe ?st1) @ map EngineProcess rest"
    "trace st2 = trace (observe ?st1) @ concat (map (\<lambda>i.
        [Spawn i (java env) (engineParams env d tt (format (observe ?st1)) i ip),
         ProcessesPush (EngineProcess i)]) rest)"
    "buffers st2 = buffers (observe ?st1)"
    by blast
  from Cons.prems(2) p t ls(1) have "r = Inr (?l # ls)" "st' = st2" by simp_all
  with ls show ?case by simp
qed

lemma launch_result:
  assumes "launch env d tt is st = (r, st')"
  shows "buffers st' = buffers st"
    and "r = Inl e \<Longrightarrow> processes st' = processes st \<and> trace st' = trace st"
    and "r = Inr ls \<Longrightarrow> map index ls = is
           \<and> (\<forall>l\<in>set ls. process l = EngineProcess (index l))
           \<and> (is \<noteq> [] \<longrightarrow> origFormat (ls ! 0) = format st)
           \<and> processes st' = processes st @ map EngineProcess is
           \<and> (\<exists>params. trace st' = trace st @ concat (map (\<lambda>i.
                 [Spawn i (java env) (params i), ProcessesPush (EngineProcess i)]) is))"
proof -
  have "buffers st' = buffers st
      \<and> (r = Inl e \<longrightarrow> processes st' = processes st \<and> trace st' = trace st)
      \<and> (r = Inr ls \<longrightarrow> map index ls = is
           \<and> (\<forall>l\<in>set ls. process l = EngineProcess (index l))
           \<and> (is \<noteq> [] \<longrightarrow> origFormat (ls ! 0) = format st)
           \<and> processes st' = processes st @ map EngineProcess is
           \<and> (\<exists>params. trace st' = trace st @ concat (map (\<lambda>i.
                 [Spawn i (java env) (params i), ProcessesPush (EngineProcess i)]) is)))"
  proof (cases "is")
    case Nil
    with assms show ?thesis by auto
  next
    case (Cons i rest)
    obtain r1 st1 where p: "launch_page env d tt i st = (r1, st1)"
      by (cases "launch_page env d tt i st") auto
    from p show ?thesis
    proof (cases rule: launch_page_cases)
      case (1 e1)
      with assms Cons p show ?thesis by auto
    next
      case (2 ip st0)
      let ?l = "\<lparr>index = i, origFormat = format st, process = EngineProcess i\<rparr>"
      note sw = swapFormat_done [OF 2(1)]
      obtain r2 st2 where t: "launch env d tt rest (observe st1) = (r2, st2)"
        by (cases "launch env d tt rest (observe st1)") auto
      have f: "format (observe st1) \<noteq> Some ''emf''" using sw(1) 2(4) by simp
      from launch_steady [OF 2(2) f t] obtain ls2 where ls: "r2 = Inr ls2"
        "map index ls2 = rest" "\<forall>l\<in>set ls2. process l = EngineProcess (index l)"
        "processes st2 = processes (observe st1) @ map EngineProcess rest"
        "trace st2 = trace (observe st1) @ concat (map (\<lambda>i.
            [Spawn i (java env) (engineParams env d tt (format (observe st1)) i ip),
             ProcessesPush (EngineProcess i)]) rest)"
        "buffers st2 = buffers (observe st1)"
        by blast
      from assms Cons p 2(3) t ls(1) have r: "r = Inr (?l # ls2)" and st': "st' = st2"
        by simp_all
      have fm: "format (observe st1) = format st0" using 2(4) by simp
      have "trace st' = trace st @ concat (map (\<lambda>i.
              [Spawn i (java env) (engineParams env d tt (format st0) i ip),
               ProcessesPush (EngineProcess i)]) is)"
        using ls(5) st' fm 2(4) sw(3) Cons by simp
      then have "\<exists>params. trace st' = trace st @ concat (map (\<lambda>i.
                 [Spawn i (java env) (params i), ProcessesPush (EngineProcess i)]) is)"
        by (rule exI [where x = "\<lambda>i. engineParams env d tt (format st0) i ip"])
      with r st' ls(2,3,4,6) 2(4) sw Cons show ?thesis by auto
    qed
  qed
  then show "buffers st' = buffers st"
    and "r = Inl e \<Longrightarrow> processes st' = processes st \<and> trace st' = trace st"
    and "r = Inr ls \<Longrightarrow> map index ls = is
           \<and> (\<forall>l\<in>set ls. process l = EngineProcess (index l))
           \<and> (is \<noteq> [] \<longrightarrow> origFormat (ls ! 0) = format st)
           \<and> processes st' = processes st @ map EngineProcess is
           \<and> (\<exists>params. trace st' = trace st @ concat (map (\<lambda>i.
                 [Spawn i (java env) (params i), ProcessesPush (EngineProcess i)]) is))"
    by blast+
qed

lemma launch_snapshots:
  assumes "launch env d tt is st = (r, st')"
    and "sorted_wrt prefix (snapshots st @ [processes st])"
  shows "sorted_wrt prefix (snapshots st' @ [processes st'])
       \<and> length (processes st') \<le> length (processes st) + length is"
  using assms
proof (induction "is" arbitrary: st r st')
  case Nil
  then show ?case by simp
next
  case (Cons i rest)
  obtain r1 st1 where p: "launch_page env d tt i st = (r1, st1)"
    by (cases "launch_page env d tt i st") auto
  from p show ?case
  proof (cases rule: launch_page_cases)
    case (1 e1)
    with Cons.prems p show ?thesis by simp
  next
    case (2 ip st0)
    note sw = swapFormat_done [OF 2(1)]
    obtain r2 st2 where t: "launch env d tt rest (observe st1) = (r2, st2)"
      by (cases "launch env d tt rest (observe st1)") auto
    from Cons.prems(1) p 2(3) t have st': "st' = st2"
      by (auto split: sum.splits)
    have ps: "processes st1 = processes st @ [EngineProcess i]"
      and sn: "snapshots st1 = snapshots st" using 2(4) sw by simp_all
    from Cons.prems(2)
    have "sorted_wrt prefix (snapshots (observe st1) @ [processes (observe st1)])"
      by (auto simp: ps sn sorted_wrt_append intro: prefix_order.trans)
    from Cons.IH [OF t this] st' ps show ?thesis by simp
  qed
qed

text \<open>The snapshot taken after the last iteration is the list that the chain starts with.\<close>

lemma launch_last_snapshot:
  assumes "launch env d tt is st = (Inr ls, st')"
    and "snapshots st \<noteq> []" "last (snapshots st) = processes st"
  shows "length (snapshots st') = length (snapshots st) + length is
       \<and> last (snapshots st') = processes st'"
  using assms
proof (induction "is" arbitrary: st ls st')
  case Nil
  then show ?case by simp
next
  case (Cons i rest)
  obtain r1 st1 where p: "launch_page env d tt i st = (r1, st1)"
    by (cases "launch_page env d tt i st") auto
  from p show ?case
  proof (cases rule: launch_page_cases)
    case (1 e1)
    with Cons.prems(1) p show ?thesis by simp
  next
    case (2 ip st0)
    note sw = swapFormat_done [OF 2(1)]
    obtain r2 st2 where t: "launch env d tt rest (observe st1) = (r2, st2)"
      by (cases "launch env d tt rest (observe st1)") auto
    from Cons.prems(1) p 2(3) t obtain ls2 where r2: "r2 = Inr ls2" and st': "st' = st2"
      by (auto split: sum.splits)
    have sn: "snapshots st1 = snapshots st" using 2(4) sw by simp
    from Cons.IH [OF t [unfolded r2]] st' sn show ?thesis by simp
  qed
qed

lemma chain_snapshots_grow:
  assumes "chain env d ls p st = (p', st')"
  shows "prefix (snapshots st) (snapshots st')"
  using assms
proof (induction rule: chain_induct)
  case Nil
  then show ?case by simp
next
  case (Rejects h t r)
  then show ?case by simp
next
  case (Step h t v st p1 st1)
  from run_link_frame(4) [OF Step.hyps(1)]
  have "prefix (snapshots st) (snapshots (observe st1))" by simp
  from this Step.IH show ?case by (rule prefix_order.trans)
qed

text \<open>The spawn and the push of page \<open>k\<close> are the events \<open>2 k\<close> and \<open>2 k + 1\<close> of
  the synchronous phase.\<close>

lemma launch_events_nth:
  "length (concat (map (\<lambda>i. [f i, g i]) xs)) = 2 * length xs"
  "k < length xs \<Longrightarrow> concat (map (\<lambda>i. [f i, g i]) xs) ! (2 * k) = f (xs ! k)
     \<and> concat (map (\<lambda>i. [f i, g i]) xs) ! (2 * k + 1) = g (xs ! k)"
proof -
  show "length (concat (map (\<lambda>i. [f i, g i]) xs)) = 2 * length xs"
    by (induction xs) simp_all
  show "k < length xs \<Longrightarrow> concat (map (\<lambda>i. [f i, g i]) xs) ! (2 * k) = f (xs ! k)
     \<and> concat (map (\<lambda>i. [f i, g i]) xs) ! (2 * k + 1) = g (xs ! k)"
  proof (induction xs arbitrary: k)
    case Nil
    then show ?case by simp
  next
    case (Cons x xs)
    then show ?case by (cases k) simp_all
  qed
qed

subsection \<open>The task\<close>

lemma split_after_prefix:
  assumes "xs @ ys = pre @ w # post" "w \<notin> set xs"
  shows "\<exists>pre'. pre = xs @ pre' \<and> ys = pre' @ w # post"
proof -
  from assms(1) obtain us where
    "(xs = pre @ us \<and> us @ ys = w # post) \<or> (xs @ us = pre \<and> ys = us @ w # post)"
    by (auto simp: append_eq_append_conv2)
  then show ?thesis
  proof
    assume a: "xs = pre @ us \<and> us @ ys = w # post"
    with assms(2) have "us = []" by (cases us) auto
    with a show ?thesis by simp
  next
    assume "xs @ us = pre \<and> ys = us @ w # post"
    then show ?thesis by auto
  qed
qed

lemma createTask_cases [case_names Preflight Throws Returns]:
  obtains "\<not> truthy (java env) \<or> \<not> existsSync env (jar env (parentUri d))"
      "trace (final (createTask env d tt sp fmt)) = []"
      "snapshots (final (createTask env d tt sp fmt)) = []"
      "processes (final (createTask env d tt sp fmt)) = []"
      "\<exists>m. result (createTask env d tt sp fmt)
         = Returns \<lparr>task_processes = None, promise = Rejected (ConfigMessage m)\<rparr>"
  | e st1 where "truthy (java env)" "existsSync env (jar env (parentUri d))"
      "launch env d tt [0..<pageCount d] (initial sp fmt) = (Inl e, st1)"
      "result (createTask env d tt sp fmt) = Throws e"
      "final (createTask env d tt sp fmt) = st1"
  | ls st1 p st2 where "truthy (java env)" "existsSync env (jar env (parentUri d))"
      "launch env d tt [0..<pageCount d] (initial sp fmt) = (Inr ls, st1)"
      "chain env d ls (Fulfilled (JsBuffer [])) st1 = (p, st2)"
      "final (createTask env d tt sp fmt) = st2"
      "result (createTask env d tt sp fmt) = Returns \<lparr>task_processes = Some (processes st2),
         promise = (case p of Fulfilled v \<Rightarrow> Resolved (buffers st2)
                    | Rejects err \<Rightarrow> Rejected err)\<rparr>"
proof (cases "truthy (java env) \<and> existsSync env (jar env (parentUri d))")
  case False
  then show ?thesis
    using that(1) by (auto simp: createTask_def initial_def)
next
  case True
  obtain r st1 where l: "launch env d tt [0..<pageCount d] (initial sp fmt) = (r, st1)"
    by (cases "launch env d tt [0..<pageCount d] (initial sp fmt)") auto
  show ?thesis
  proof (cases r)
    case (Inl e)
    with True l that(2) [of e st1] show ?thesis by (simp add: createTask_def)
  next
    case (Inr ls)
    obtain p st2 where c: "chain env d ls (Fulfilled (JsBuffer [])) st1 = (p, st2)"
      by (cases "chain env d ls (Fulfilled (JsBuffer [])) st1") auto
    with True l Inr that(3) [of ls st1 p st2] show ?thesis by (simp add: createTask_def)
  qed
qed

lemma launch_initial:
  assumes "launch env d tt [0..<n] (initial sp fmt) = (Inr ls, st1)"
  shows "map index ls = [0..<n]"
    and "\<forall>l\<in>set ls. process l = EngineProcess (index l)"
    and "processes st1 = map EngineProcess [0..<n]"
    and "buffers st1 = Some []"
    and "\<exists>params. trace st1 = concat (map (\<lambda>i.
           [Spawn i (java env) (params i), ProcessesPush (EngineProcess i)]) [0..<n])"
    and "\<forall>e\<in>set (trace st1). is_launch e"
    and "0 < n \<Longrightarrow> origFormat (ls ! 0) = fmt"
proof -
  from launch_result(1) [OF assms] show "buffers st1 = Some []" by (simp add: initial_def)
  from launch_result(3) [OF assms refl]
  have a: "map index ls = [0..<n]" "\<forall>l\<in>set ls. process l = EngineProcess (index l)"
    "[0..<n] \<noteq> [] \<longrightarrow> origFormat (ls ! 0) = fmt"
    "processes st1 = map EngineProcess [0..<n]"
    and b: "\<exists>params. trace st1 = concat (map (\<lambda>i.
           [Spawn i (java env) (params i), ProcessesPush (EngineProcess i)]) [0..<n])"
    by (simp_all add: initial_def)
  from a show "map index ls = [0..<n]"
    and "\<forall>l\<in>set ls. process l = EngineProcess (index l)"
    and "processes st1 = map EngineProcess [0..<n]" by simp_all
  from a(3) show "0 < n \<Longrightarrow> origFormat (ls ! 0) = fmt" by simp
  from b show "\<exists>params. trace st1 = concat (map (\<lambda>i.
           [Spawn i (java env) (params i), ProcessesPush (EngineProcess i)]) [0..<n])" .
  from b show "\<forall>e\<in>set (trace st1). is_launch e" by auto
qed

lemma launch_thrown:
  assumes "launch env d tt [0..<n] (initial sp fmt) = (Inl e, st1)"
  shows "trace st1 = []" "processes st1 = []"
  using launch_result(2) [OF assms refl] by (simp_all add: initial_def)

text \<open>The links of a task hold the pages \<open>0, 1, ...\<close> in this order.\<close>

lemma links_nth:
  assumes "map index ls = [0..<n]" "j < n"
  shows "ls ! j \<in> set ls" "index (ls ! j) = j"
proof -
  from assms(1) have len: "length ls = n" by (metis length_map length_upt minus_nat.diff_0)
  with assms(2) show "ls ! j \<in> set ls" by simp
  from len assms have "map index ls ! j = j" by simp
  with len assms(2) show "index (ls ! j) = j" by simp
qed

lemma links_sorted:
  assumes "map index ls = [0..<n]"
  shows "sorted_wrt (<) (map index ls)"
  using assms by simp

lemma links_index_bound:
  assumes "map index ls = [0..<n]" "l \<in> set ls"
  shows "index l < n"
proof -
  from assms(2) have "index l \<in> set (map index ls)" by simp
  with assms(1) show ?thesis by simp
qed

lemma sorted_wrt_all:
  assumes "\<And>a b. a \<in> set xs \<Longrightarrow> b \<in> set xs \<Longrightarrow> P a b"
  shows "sorted_wrt P xs"
  using assms by (induction xs) auto

lemma links_kill_order:
  assumes "map index ls = [0..<n]" "\<forall>l\<in>set ls. process l = EngineProcess (index l)"
    and "\<forall>i j. i \<le> j \<and> j < n \<and> killed env (EngineProcess i) \<longrightarrow> killed env (EngineProcess j)"
  shows "sorted_wrt (\<lambda>a b. killed env (process a) \<longrightarrow> killed env (process b)) ls"
proof -
  from assms(1) have len: "length ls = n" by (metis length_map length_upt minus_nat.diff_0)
  have "\<forall>i j. i < j \<longrightarrow> j < length ls \<longrightarrow>
          killed env (process (ls ! i)) \<longrightarrow> killed env (process (ls ! j))"
  proof (intro allI impI)
    fix i j assume ij: "i < j" "j < length ls" and k: "killed env (process (ls ! i))"
    from ij len have i: "i < n" and j: "j < n" by simp_all
    from links_nth [OF assms(1) i] links_nth [OF assms(1) j] assms(2)
    have "process (ls ! i) = EngineProcess i" "process (ls ! j) = EngineProcess j" by auto
    with k assms(3) ij(1) j show "killed env (process (ls ! j))" by (metis less_imp_le)
  qed
  then show ?thesis by (simp add: sorted_wrt_iff_nth_less)
qed

lemma task_artifacts:
  assumes "launch env d tt [0..<n] (initial sp fmt) = (Inr ls, st1)"
    and "chain env d ls p st1 = (Fulfilled v', st2)" "buffers st2 = Some bs"
  shows "length bs = n \<and> (\<forall>j<n. AdapterSettled j (Inr (bs ! j)) \<in> set (emitted st1 st2))"
proof -
  note l = launch_initial [OF assms(1)]
  from chain_buffers [OF assms(2) refl assms(3)] l(4)
  have a: "list_all2 (\<lambda>l b. AdapterSettled (index l) (Inr b) \<in> set (emitted st1 st2)) ls bs"
    by auto
  from l(1) have len: "length ls = n" by (metis length_map length_upt minus_nat.diff_0)
  from a len have "length bs = n" by (simp add: list_all2_lengthD)
  moreover have "\<forall>j<n. AdapterSettled j (Inr (bs ! j)) \<in> set (emitted st1 st2)"
  proof (intro allI impI)
    fix j assume "j < n"
    with list_all2_nthD [OF a, of j] len
    have "AdapterSettled (index (ls ! j)) (Inr (bs ! j)) \<in> set (emitted st1 st2)"
      by simp
    with links_nth(2) [OF l(1) \<open>j < n\<close>] show "AdapterSettled j (Inr (bs ! j)) \<in> set (emitted st1 st2)"
      by simp
  qed
  ultimately show ?thesis by simp
qed



subsection \<open>The concrete runs, evaluated\<close>

lemmas demo_simps =
  render_def createTask_def demo_env_def demo_diagram_def one_page_def demo_parse_def
  demo_addFileIndex_def truthy_def initial_def upt_rec launch_page_def swapFormat_def
  push_process_def
  includePathOf_def observe_def run_link_def convert_def path_format_def Let_def
  string_of_nat.simps

lemmas demo_envs =
  converter_fails_env_def first_killed_env_def adapter_fails_env_def no_workspace_env_def

lemma demo_two_pages:
  "createTask demo_env demo_diagram ''-pipe'' (Some ''/out/d.emf'') (Some ''emf'') =
     \<lparr>result = Returns \<lparr>task_processes = Some [EngineProcess 0, EngineProcess 1],
                         promise = Resolved (Some [''svg0'', ''svg1''])\<rparr>,
      final = \<lparr>format = Some ''svg'', savePath = Some ''/out/d.svg'',
               processes = [EngineProcess 0, EngineProcess 1],
               buffers = Some [''svg0'', ''svg1''],
               trace =
                 [Spawn 0 ''java'' (engineParams demo_env demo_diagram ''-pipe'' (Some ''svg'') 0 ''/ws''),
                  ProcessesPush (EngineProcess 0),
                  Spawn 1 ''java'' (engineParams demo_env demo_diagram ''-pipe'' (Some ''svg'') 1 ''/ws''),
                  ProcessesPush (EngineProcess 1),
                  StdinWrite 0 ''@startuml'', StdinEnd 0,
                  AdapterCall 0 ''/out/d-page1.svg'', AdapterSettled 0 (Inr ''svg0''),
                  ConverterSpawn 0 ''/usr/bin/inkscape''
                    [''--without-gui'', ''--export-emf=/out/d-page1.emf'', ''/out/d-page1.svg''],
                  ConsoleLog 0
                    ''Generating EMF file: input=/out/d-page1.svg, output=/out/d-page1.emf'',
                  ConverterExecFileSync 0 ''/usr/bin/inkscape''
                    [''--without-gui'', ''--export-emf=/out/d-page1.emf'', ''/out/d-page1.svg'']
                    None,
                  StdinWrite 1 ''@startuml'', StdinEnd 1,
                  AdapterCall 1 ''/out/d-page2.svg'', AdapterSettled 1 (Inr ''svg1'')],
               snapshots =
                 [[], [EngineProcess 0], [EngineProcess 0, EngineProcess 1],
                  [EngineProcess 0, EngineProcess 1], [EngineProcess 0, EngineProcess 1]]\<rparr>\<rparr>"
  by (simp add: demo_simps)

lemma demo_one_page:
  "createTask demo_env one_page ''-pipe'' (Some ''/out/d.emf'') (Some ''emf'') =
     \<lparr>result = Returns \<lparr>task_processes = Some [EngineProcess 0],
                         promise = Resolved (Some [''svg0''])\<rparr>,
      final = \<lparr>format = Some ''svg'', savePath = Some ''/out/d.svg'',
               processes = [EngineProcess 0], buffers = Some [''svg0''],
               trace =
                 [Spawn 0 ''java'' (engineParams demo_env one_page ''-pipe'' (Some ''svg'') 0 ''/ws''),
                  ProcessesPush (EngineProcess 0),
                  StdinWrite 0 ''@startuml'', StdinEnd 0,
                  AdapterCall 0 ''/out/d.svg'', AdapterSettled 0 (Inr ''svg0''),
                  ConverterSpawn 0 ''/usr/bin/inkscape''
                    [''--without-gui'', ''--export-emf=/out/d.emf'', ''/out/d.svg''],
                  ConsoleLog 0 ''Generating EMF file: input=/out/d.svg, output=/out/d.emf'',
                  ConverterExecFileSync 0 ''/usr/bin/inkscape''
                    [''--without-gui'', ''--export-emf=/out/d.emf'', ''/out/d.svg''] None],
               snapshots = [[], [EngineProcess 0], [EngineProcess 0]]\<rparr>\<rparr>"
  by (simp add: demo_simps)

lemma demo_converter_fails:
  "createTask converter_fails_env one_page ''-pipe'' (Some ''/out/d.emf'') (Some ''emf'') =
     \<lparr>result = Returns \<lparr>task_processes = Some [EngineProcess 0],
                         promise = Rejected (ConverterError ''exit code 1'')\<rparr>,
      final = \<lparr>format = Some ''svg'', savePath = Some ''/out/d.svg'',
               processes = [EngineProcess 0], buffers = Some [''svg0''],
               trace =
                 [Spawn 0 ''java''
                    (engineParams converter_fails_env one_page ''-pipe'' (Some ''svg'') 0 ''/ws''),
                  ProcessesPush (EngineProcess 0),
                  StdinWrite 0 ''@startuml'', StdinEnd 0,
                  AdapterCall 0 ''/out/d.svg'', AdapterSettled 0 (Inr ''svg0''),
                  ConverterSpawn 0 ''/usr/bin/inkscape''
                    [''--without-gui'', ''--export-emf=/out/d.emf'', ''/out/d.svg''],
                  ConsoleLog 0 ''Generating EMF file: input=/out/d.svg, output=/out/d.emf'',
                  ConverterExecFileSync 0 ''/usr/bin/inkscape''
                    [''--without-gui'', ''--export-emf=/out/d.emf'', ''/out/d.svg'']
                    (Some ''exit code 1'')],
               snapshots = [[], [EngineProcess 0], [EngineProcess 0]]\<rparr>\<rparr>"
  by (simp add: demo_simps demo_envs)

lemma demo_first_killed:
  "createTask first_killed_env demo_diagram ''-pipe'' None (Some ''png'') =
     \<lparr>result = Returns \<lparr>task_processes = Some [EngineProcess 0, EngineProcess 1],
                         promise = Rejected TypeErrorNullPush\<rparr>,
      final = \<lparr>format = Some ''png'', savePath = None,
               processes = [EngineProcess 0, EngineProcess 1], buffers = None,
               trace =
                 [Spawn 0 ''java''
                    (engineParams first_killed_env demo_diagram ''-pipe'' (Some ''png'') 0 ''/ws''),
                  ProcessesPush (EngineProcess 0),
                  Spawn 1 ''java''
                    (engineParams first_killed_env demo_diagram ''-pipe'' (Some ''png'') 1 ''/ws''),
                  ProcessesPush (EngineProcess 1),
                  StdinWrite 1 ''@startuml'', StdinEnd 1, AdapterCall 1 [],
                  AdapterSettled 1 (Inr ''svg1'')],
               snapshots =
                 [[], [EngineProcess 0], [EngineProcess 0, EngineProcess 1],
                  [EngineProcess 0, EngineProcess 1], [EngineProcess 0, EngineProcess 1]]\<rparr>\<rparr>"
  by (simp add: demo_simps demo_envs)

lemma demo_adapter_fails:
  "createTask adapter_fails_env demo_diagram ''-pipe'' None (Some ''png'') =
     \<lparr>result = Returns \<lparr>task_processes = Some [EngineProcess 0, EngineProcess 1],
                         promise = Rejected (RenderError ''10:Demo:boom'' ''partial'')\<rparr>,
      final = \<lparr>format = Some ''png'', savePath = None,
               processes = [EngineProcess 0, EngineProcess 1], buffers = Some [],
               trace =
                 [Spawn 0 ''java''
                    (engineParams adapter_fails_env demo_diagram ''-pipe'' (Some ''png'') 0 ''/ws''),
                  ProcessesPush (EngineProcess 0),
                  Spawn 1 ''java''
                    (engineParams adapter_fails_env demo_diagram ''-pipe'' (Some ''png'') 1 ''/ws''),
                  ProcessesPush (EngineProcess 1),
                  StdinWrite 0 ''@startuml'', StdinEnd 0, AdapterCall 0 [],
                  AdapterSettled 0 (Inl \<lparr>error = ''boom'', out = ''partial''\<rparr>)],
               snapshots =
                 [[], [EngineProcess 0], [EngineProcess 0, EngineProcess 1],
                  [EngineProcess 0, EngineProcess 1]]\<rparr>\<rparr>"
  by (simp add: demo_simps demo_envs)

lemma demo_no_workspace:
  "createTask no_workspace_env demo_diagram ''-pipe'' None (Some ''png'') =
     \<lparr>result = Throws TypeErrorNoWorkspace,
      final = \<lparr>format = Some ''png'', savePath = None, processes = [], buffers = Some [],
               trace = [], snapshots = [[]]\<rparr>\<rparr>"
  by (simp add: demo_simps demo_envs)

text \<open>A request for \<open>emf\<close> without a destination path throws in the first iteration, at
  \<open>path.parse\<close>, before anything is spawned.\<close>

lemma demo_no_save_path:
  "createTask demo_env demo_diagram ''-pipe'' None (Some ''emf'') =
     \<lparr>result = Throws TypeErrorPathParse,
      final = \<lparr>format = Some ''emf'', savePath = None, processes = [], buffers = Some [],
               trace = [], snapshots = [[]]\<rparr>\<rparr>"
  by (simp add: demo_simps)

lemma demo_preflight:
  "truthy (java demo_env)" "existsSync demo_env (jar demo_env (parentUri d))"
  "truthy (java converter_fails_env)"
  "existsSync converter_fails_env (jar converter_fails_env (parentUri d))"
  "truthy (java no_workspace_env)"
  "existsSync no_workspace_env (jar no_workspace_env (parentUri d))"
  by (simp_all add: demo_env_def demo_envs truthy_def)

section \<open>The properties of the task\<close>

text \<open>
  In the statements below a run is \<open>createTask env d taskType savePath0 format0\<close>; its
  trace is \<open>trace (final ...)\<close>. A statement about the promise of the task supposes that
  \<open>createTask\<close> has returned a task, \<open>result ... = Returns t\<close>: when \<open>path.parse\<close>
  or \<open>ws.uri\<close> throws in the first iteration of the \<open>reduce\<close>, there is no task.
\<close>

subsection \<open>C1: the artifact list\<close>

text \<open>
  C1. When the preflight passes, no process is found killed, and nothing fails in the run
  (no call of the adapter rejects and the blocking call of the converter does not throw),
  the promise of the task resolves with a list of exactly \<open>pageCount\<close> buffers, and
  the buffer at position \<open>j\<close> is the one with which the adapter settled for page
  \<open>j\<close>. The order in which the processes finish is no input of the run: the chain
  awaits the adapter of page \<open>j\<close> before it turns to page \<open>j + 1\<close>.
\<close>

theorem all_pages_resolve_in_order:
  assumes "truthy (java env)" "existsSync env (jar env (parentUri d))"
    and "result (createTask env d taskType savePath0 format0) = Returns t"
    and "\<forall>j<pageCount d. \<not> killed env (EngineProcess j)"
    and "\<forall>e\<in>set (trace (final (createTask env d taskType savePath0 format0))). \<not> failed e"
  shows "\<exists>bs. promise t = Resolved (Some bs) \<and> length bs = pageCount d
           \<and> (\<forall>j<pageCount d. AdapterSettled j (Inr (bs ! j))
                 \<in> set (trace (final (createTask env d taskType savePath0 format0))))"
proof (cases env d taskType savePath0 format0 rule: createTask_cases)
  case Preflight
  with assms show ?thesis by simp
next
  case (Throws e st1)
  with assms show ?thesis by simp
next
  case (Returns ls st1 p st2)
  note l = launch_initial [OF Returns(3)]
  from chain_trace [OF Returns(4)] have tr: "trace st2 = trace st1 @ emitted st1 st2" .
  have nk: "\<forall>l\<in>set ls. \<not> killed env (process l)"
    using l(2) links_index_bound [OF l(1)] assms(4) by auto
  then have s: "sorted_wrt (\<lambda>a b. killed env (process a) \<longrightarrow> killed env (process b)) ls"
    by (intro sorted_wrt_all) simp
  from assms(5) Returns(5) tr have nf: "\<forall>e\<in>set (emitted st1 st2). \<not> failed e" by simp
  from chain_no_failure [OF Returns(4) _ nf s] l(4) obtain v' where p: "p = Fulfilled v'"
    by auto
  from chain_keeps_buffers [OF Returns(4) p _ nk] l(4) obtain bs where
    bs: "buffers st2 = Some bs" by auto
  from task_artifacts [OF Returns(3) Returns(4) [unfolded p] bs] tr
  have "length bs = pageCount d
      \<and> (\<forall>j<pageCount d. AdapterSettled j (Inr (bs ! j)) \<in> set (trace st2))" by simp
  moreover from p bs Returns(6) assms(3) have "promise t = Resolved (Some bs)" by auto
  ultimately show ?thesis using Returns(5) by auto
qed

text \<open>
  The two-stage run over two pages meets the hypotheses and resolves with two buffers.
\<close>

theorem all_pages_resolve_in_order_witness:
  "\<exists>bs. settled_promise (createTask demo_env demo_diagram ''-pipe'' (Some ''/out/d.emf'') (Some ''emf''))
          = Some (Resolved (Some bs))
        \<and> length bs = pageCount demo_diagram
        \<and> AdapterSettled 0 (Inr (bs ! 0))
            \<in> set (trace (final (createTask demo_env demo_diagram ''-pipe'' (Some ''/out/d.emf'')
                 (Some ''emf''))))
        \<and> AdapterSettled 1 (Inr (bs ! 1))
            \<in> set (trace (final (createTask demo_env demo_diagram ''-pipe'' (Some ''/out/d.emf'')
                 (Some ''emf''))))"
proof -
  let ?r = "createTask demo_env demo_diagram ''-pipe'' (Some ''/out/d.emf'') (Some ''emf'')"
  let ?t = "\<lparr>task_processes = Some [EngineProcess 0, EngineProcess 1],
             promise = Resolved (Some [''svg0'', ''svg1''])\<rparr>"
  have r: "result ?r = Returns ?t" by (simp add: demo_two_pages)
  have n: "pageCount demo_diagram = 2" by (simp add: demo_diagram_def)
  have k: "\<forall>j<pageCount demo_diagram. \<not> killed demo_env (EngineProcess j)"
    by (simp add: demo_env_def)
  have f: "\<forall>e\<in>set (trace (final ?r)). \<not> failed e" by (simp add: demo_two_pages)
  from all_pages_resolve_in_order [OF demo_preflight(1,2) r k f]
  obtain bs where "promise ?t = Resolved (Some bs)" "length bs = pageCount demo_diagram"
    "\<forall>j<pageCount demo_diagram. AdapterSettled j (Inr (bs ! j)) \<in> set (trace (final ?r))"
    by blast
  with r n show ?thesis by (auto simp: settled_promise_def)
qed

text \<open>
  The hypothesis on the converter cannot be dropped. With one page, the format \<open>emf\<close>,
  a passing preflight, no killed process and an adapter that succeeds, a converter that
  exits with an error makes \<open>execFileSync\<close> throw inside the continuation, and the
  promise is rejected with that error.
\<close>

theorem all_pages_resolve_counterexample:
  "truthy (java converter_fails_env)
   \<and> existsSync converter_fails_env (jar converter_fails_env (parentUri one_page))
   \<and> pageCount one_page = 1
   \<and> \<not> killed converter_fails_env (EngineProcess 0)
   \<and> trace (final (createTask converter_fails_env one_page ''-pipe'' (Some ''/out/d.emf'') (Some ''emf'')))
     = [Spawn 0 ''java''
          (engineParams converter_fails_env one_page ''-pipe'' (Some ''svg'') 0 ''/ws''),
        ProcessesPush (EngineProcess 0),
        StdinWrite 0 ''@startuml'', StdinEnd 0,
        AdapterCall 0 ''/out/d.svg'', AdapterSettled 0 (Inr ''svg0''),
        ConverterSpawn 0 ''/usr/bin/inkscape''
          [''--without-gui'', ''--export-emf=/out/d.emf'', ''/out/d.svg''],
        ConsoleLog 0 ''Generating EMF file: input=/out/d.svg, output=/out/d.emf'',
        ConverterExecFileSync 0 ''/usr/bin/inkscape''
          [''--without-gui'', ''--export-emf=/out/d.emf'', ''/out/d.svg''] (Some ''exit code 1'')]
   \<and> settled_promise
       (createTask converter_fails_env one_page ''-pipe'' (Some ''/out/d.emf'') (Some ''emf''))
     = Some (Rejected (ConverterError ''exit code 1''))"
  by (simp add: demo_converter_fails demo_preflight settled_promise_def)
    (simp add: one_page_def demo_diagram_def converter_fails_env_def demo_env_def)

subsection \<open>C2: the order of the pages\<close>

text \<open>
  C2. Whenever the input of page \<open>i + 1\<close> is written, the chain is done with page
  \<open>i\<close>: either the process of page \<open>i\<close> was found killed, or the adapter has
  settled successfully for page \<open>i\<close> before the write and, where page \<open>i\<close> has a
  second stage (page 0 of a request for \<open>emf\<close>), the blocking call of the converter
  has returned before the write. Nothing of page \<open>i\<close> happens after the write.
\<close>

theorem input_written_after_previous_page:
  assumes "trace (final (createTask env d taskType savePath0 format0))
             = pre @ StdinWrite (Suc i) c # post"
  shows "(killed env (EngineProcess i)
          \<or> ((\<exists>b. AdapterSettled i (Inr b) \<in> set pre)
             \<and> (i = 0 \<and> format0 = Some ''emf'' \<longrightarrow>
                  (\<exists>exe args. ConverterExecFileSync i exe args None \<in> set pre))))
       \<and> (\<forall>e\<in>set post. Suc i \<le> page_of e)"
proof (cases env d taskType savePath0 format0 rule: createTask_cases)
  case Preflight
  with assms show ?thesis by simp
next
  case (Throws e st1)
  then have "trace st1 = []" by (simp add: launch_thrown)
  with Throws assms show ?thesis by simp
next
  case (Returns ls st1 p st2)
  note l = launch_initial [OF Returns(3)]
  let ?w = "StdinWrite (Suc i) c"
  from chain_trace [OF Returns(4)] have tr: "trace st2 = trace st1 @ emitted st1 st2" .
  from l(6) have "?w \<notin> set (trace st1)" by auto
  from split_after_prefix [OF _ this, of "emitted st1 st2" pre post] assms Returns(5) tr
  obtain pre' where pre: "pre = trace st1 @ pre'" and ev: "emitted st1 st2 = pre' @ ?w # post"
    by auto
  from chain_sorted [OF Returns(4) links_sorted [OF l(1)]] ev
  have after: "\<forall>e\<in>set post. Suc i \<le> page_of e"
    and before: "\<forall>e\<in>set pre'. page_of e \<le> Suc i"
    by (auto simp: sorted_append)
  have w: "?w \<in> set (emitted st1 st2)" using ev by simp
  from chain_events [OF Returns(4) w] obtain l' where "l' \<in> set ls" "index l' = Suc i"
    by auto
  with links_index_bound [OF l(1), of l'] have i: "i < pageCount d" by simp
  note li = links_nth [OF l(1) i]
  from li l(2) have pl: "process (ls ! i) = EngineProcess i" by simp
  have early: "e \<in> set pre" if "e \<in> set (emitted st1 st2)" "page_of e = i" for e
  proof -
    have "page_of ?w = Suc i" by simp
    with that(2) have "e \<noteq> ?w" by (metis n_not_Suc_n)
    moreover from that(2) after have "e \<notin> set post" by auto
    ultimately show ?thesis using that(1) ev pre by auto
  qed
  from chain_reach [OF Returns(4) links_sorted [OF l(1)] w li(1)] li(2) pl
  have r: "killed env (EngineProcess i)
       \<or> ((\<exists>b. AdapterSettled i (Inr b) \<in> set (emitted st1 st2))
          \<and> (origFormat (ls ! i) = Some ''emf'' \<longrightarrow>
               (\<exists>exe args. ConverterExecFileSync i exe args None \<in> set (emitted st1 st2))))"
    by simp
  have "killed env (EngineProcess i)
          \<or> ((\<exists>b. AdapterSettled i (Inr b) \<in> set pre)
             \<and> (i = 0 \<and> format0 = Some ''emf'' \<longrightarrow>
                  (\<exists>exe args. ConverterExecFileSync i exe args None \<in> set pre)))"
  proof (cases "killed env (EngineProcess i)")
    case True
    then show ?thesis by simp
  next
    case False
    with r obtain b where b: "AdapterSettled i (Inr b) \<in> set (emitted st1 st2)"
      and cv: "origFormat (ls ! i) = Some ''emf'' \<longrightarrow>
               (\<exists>exe args. ConverterExecFileSync i exe args None \<in> set (emitted st1 st2))"
      by blast
    from early [OF b] have "\<exists>b. AdapterSettled i (Inr b) \<in> set pre" by auto
    moreover have "i = 0 \<and> format0 = Some ''emf'' \<longrightarrow>
                  (\<exists>exe args. ConverterExecFileSync i exe args None \<in> set pre)"
    proof
      assume h: "i = 0 \<and> format0 = Some ''emf''"
      with l(7) i have "origFormat (ls ! i) = Some ''emf''" by simp
      with cv obtain exe args where
        "ConverterExecFileSync i exe args None \<in> set (emitted st1 st2)" by blast
      from early [OF this] show "\<exists>exe args. ConverterExecFileSync i exe args None \<in> set pre"
        by auto
    qed
    ultimately show ?thesis by simp
  qed
  with after show ?thesis by simp
qed

text \<open>
  In the two-stage run over two pages eleven events come before the input of page 1; they
  hold the output of page 0 and the blocking call of the converter.
\<close>

theorem input_written_after_previous_page_witness:
  "\<not> killed demo_env (EngineProcess 0)
   \<and> (\<exists>b. AdapterSettled 0 (Inr b)
          \<in> set (take 11 (trace (final (createTask demo_env demo_diagram ''-pipe'' (Some ''/out/d.emf'')
               (Some ''emf''))))))
   \<and> (\<exists>exe args. ConverterExecFileSync 0 exe args None
          \<in> set (take 11 (trace (final (createTask demo_env demo_diagram ''-pipe'' (Some ''/out/d.emf'')
               (Some ''emf''))))))"
proof -
  let ?tr = "trace (final (createTask demo_env demo_diagram ''-pipe'' (Some ''/out/d.emf'') (Some ''emf'')))"
  have nk: "\<not> killed demo_env (EngineProcess 0)" by (simp add: demo_env_def)
  have "?tr = take 11 ?tr @ StdinWrite (Suc 0) ''@startuml'' # drop 12 ?tr"
    by (simp add: demo_two_pages)
  from input_written_after_previous_page [OF this] nk show ?thesis by blast
qed

text \<open>
  Without the case of a killed process the statement fails: when the process of page 0 is
  found killed, its continuation resolves at once, and the input of page 1 is written
  although no output of page 0 is ever consumed.
\<close>

theorem input_written_counterexample:
  "killed first_killed_env (EngineProcess 0)
   \<and> trace (final (createTask first_killed_env demo_diagram ''-pipe'' None (Some ''png'')))
     = [Spawn 0 ''java''
          (engineParams first_killed_env demo_diagram ''-pipe'' (Some ''png'') 0 ''/ws''),
        ProcessesPush (EngineProcess 0),
        Spawn 1 ''java''
          (engineParams first_killed_env demo_diagram ''-pipe'' (Some ''png'') 1 ''/ws''),
        ProcessesPush (EngineProcess 1),
        StdinWrite 1 ''@startuml'', StdinEnd 1, AdapterCall 1 [],
        AdapterSettled 1 (Inr ''svg1'')]"
  by (simp add: demo_first_killed) (simp add: first_killed_env_def demo_env_def)

subsection \<open>C3: the preflight\<close>

text \<open>
  C3. If the engine executable is not configured, or the engine bundle does not exist on
  disk, \<open>createTask\<close> returns a task without a process list whose promise is rejected
  with the configuration message: \<open>localize\<close> of message 5, or \<open>localize\<close> of
  message 6 with the install location \<open>extensionPath\<close> as its argument. Nothing has
  been spawned: the trace of the run is empty.
\<close>

theorem preflight_rejects_before_spawning:
  assumes "\<not> truthy (java env) \<or> \<not> existsSync env (jar env (parentUri d))"
  shows "result (createTask env d taskType savePath0 format0) =
           Returns \<lparr>task_processes = None,
                    promise = Rejected (ConfigMessage
                      (if \<not> truthy (java env) then localize env 5 []
                       else localize env 6 [extensionPath env]))\<rparr>
       \<and> trace (final (createTask env d taskType savePath0 format0)) = []"
  using assms by (auto simp: createTask_def initial_def)

text \<open>
  Both cases, with a localisation that joins the number of the message and its arguments.
\<close>

theorem preflight_rejects_before_spawning_witness:
  "result (createTask (demo_env\<lparr>java := []\<rparr>) demo_diagram ''-pipe'' None (Some ''png'')) =
     Returns \<lparr>task_processes = None, promise = Rejected (ConfigMessage ''5'')\<rparr>
   \<and> trace (final (createTask (demo_env\<lparr>java := []\<rparr>) demo_diagram ''-pipe'' None (Some ''png''))) = []
   \<and> result (createTask (demo_env\<lparr>existsSync := (\<lambda>p. False)\<rparr>) demo_diagram ''-pipe'' None
        (Some ''png'')) =
     Returns \<lparr>task_processes = None, promise = Rejected (ConfigMessage ''6:/ext'')\<rparr>
   \<and> trace (final (createTask (demo_env\<lparr>existsSync := (\<lambda>p. False)\<rparr>) demo_diagram ''-pipe'' None
        (Some ''png''))) = []"
  using preflight_rejects_before_spawning
          [of "demo_env\<lparr>java := []\<rparr>" demo_diagram "''-pipe''" None "Some ''png''"]
        preflight_rejects_before_spawning
          [of "demo_env\<lparr>existsSync := (\<lambda>p. False)\<rparr>" demo_diagram "''-pipe''" None "Some ''png''"]
  by (simp add: demo_env_def demo_diagram_def truthy_def string_of_nat.simps)

subsection \<open>C4: a failing adapter\<close>

text \<open>
  C4. If the adapter rejects with \<open>err\<close> for page \<open>k\<close>, then \<open>k\<close> is a page of
  the diagram, the promise of the task is rejected with the one \<open>RenderError\<close> whose
  message is \<open>localize\<close> of message 10 with the title of the diagram and
  \<open>err.error\<close>, and whose partial output is \<open>err.out\<close>, and no input is written
  to a page after \<open>k\<close>.
\<close>

theorem adapter_failure_rejects_task:
  assumes "result (createTask env d taskType savePath0 format0) = Returns t"
    and "AdapterSettled k (Inl err)
           \<in> set (trace (final (createTask env d taskType savePath0 format0)))"
  shows "k < pageCount d
       \<and> promise t = Rejected (RenderError (localize env 10 [title d, error err]) (out err))
       \<and> (\<forall>j c. k < j \<longrightarrow>
             StdinWrite j c \<notin> set (trace (final (createTask env d taskType savePath0 format0))))"
proof (cases env d taskType savePath0 format0 rule: createTask_cases)
  case Preflight
  with assms show ?thesis by simp
next
  case (Throws e st1)
  with assms show ?thesis by simp
next
  case (Returns ls st1 p st2)
  note l = launch_initial [OF Returns(3)]
  from chain_trace [OF Returns(4)] have tr: "trace st2 = trace st1 @ emitted st1 st2" .
  from assms(2) Returns(5) tr l(6) have f: "AdapterSettled k (Inl err) \<in> set (emitted st1 st2)"
    by auto
  from chain_adapter_failed [OF Returns(4) links_sorted [OF l(1)] f]
  have p: "p = Rejects (RenderError (localize env 10 [title d, error err]) (out err))"
    and le: "\<forall>e\<in>set (emitted st1 st2). page_of e \<le> k" by simp_all
  from chain_events [OF Returns(4) f] links_index_bound [OF l(1)]
  have "k < pageCount d" by auto
  moreover from p Returns(6) assms(1)
  have "promise t = Rejected (RenderError (localize env 10 [title d, error err]) (out err))"
    by auto
  moreover have "\<forall>j c. k < j \<longrightarrow> StdinWrite j c \<notin> set (trace st2)"
  proof (intro allI impI notI)
    fix j c assume "k < j" "StdinWrite j c \<in> set (trace st2)"
    with tr l(6) have "StdinWrite j c \<in> set (emitted st1 st2)" by auto
    with le \<open>k < j\<close> show False by fastforce
  qed
  ultimately show ?thesis using Returns(5) by simp
qed

text \<open>
  The adapter rejects for page 0 of two pages: the task is rejected, page 1 gets no input.
\<close>

theorem adapter_failure_rejects_task_witness:
  "settled_promise (createTask adapter_fails_env demo_diagram ''-pipe'' None (Some ''png''))
     = Some (Rejected (RenderError ''10:Demo:boom'' ''partial''))
   \<and> StdinWrite 1 ''@startuml''
       \<notin> set (trace (final (createTask adapter_fails_env demo_diagram ''-pipe'' None (Some ''png''))))"
proof -
  let ?r = "createTask adapter_fails_env demo_diagram ''-pipe'' None (Some ''png'')"
  let ?t = "\<lparr>task_processes = Some [EngineProcess 0, EngineProcess 1],
             promise = Rejected (RenderError ''10:Demo:boom'' ''partial'')\<rparr>"
  have r: "result ?r = Returns ?t" by (simp add: demo_adapter_fails)
  have a: "AdapterSettled 0 (Inl \<lparr>error = ''boom'', out = ''partial''\<rparr>) \<in> set (trace (final ?r))"
    by (simp add: demo_adapter_fails)
  have m: "localize adapter_fails_env 10 [title demo_diagram, ''boom''] = ''10:Demo:boom''"
    by (simp add: adapter_fails_env_def demo_env_def demo_diagram_def string_of_nat.simps)
  from adapter_failure_rejects_task [OF r a] m
  have "promise ?t = Rejected (RenderError ''10:Demo:boom'' ''partial'')"
    and "\<forall>j c. 0 < j \<longrightarrow> StdinWrite j c \<notin> set (trace (final ?r))" by simp_all
  with r show ?thesis by (simp add: settled_promise_def)
qed

subsection \<open>C5: a killed process\<close>

text \<open>
  C5. A diagram of two pages: the process of page 0 is found killed, the process of page 1
  is alive and its adapter succeeds. The continuation of page 0 writes no input, replaces
  the list of buffers by \<open>null\<close> and resolves. The continuation of page 1 then writes its
  input, awaits the adapter and calls \<open>push\<close> on \<open>null\<close> (line 145): the promise of
  the task is rejected with that \<open>TypeError\<close>, and does not resolve with \<open>null\<close>.
\<close>

theorem killed_page_then_live_page_rejects:
  "pageCount demo_diagram = 2
   \<and> killed first_killed_env (EngineProcess 0)
   \<and> \<not> killed first_killed_env (EngineProcess 1)
   \<and> trace (final (createTask first_killed_env demo_diagram ''-pipe'' None (Some ''png'')))
     = [Spawn 0 ''java''
          (engineParams first_killed_env demo_diagram ''-pipe'' (Some ''png'') 0 ''/ws''),
        ProcessesPush (EngineProcess 0),
        Spawn 1 ''java''
          (engineParams first_killed_env demo_diagram ''-pipe'' (Some ''png'') 1 ''/ws''),
        ProcessesPush (EngineProcess 1),
        StdinWrite 1 ''@startuml'', StdinEnd 1, AdapterCall 1 [],
        AdapterSettled 1 (Inr ''svg1'')]
   \<and> buffers (final (createTask first_killed_env demo_diagram ''-pipe'' None (Some ''png'')))
     = None
   \<and> settled_promise (createTask first_killed_env demo_diagram ''-pipe'' None (Some ''png''))
     = Some (Rejected TypeErrorNullPush)"
  by (simp add: demo_first_killed settled_promise_def)
    (simp add: first_killed_env_def demo_env_def demo_diagram_def)

text \<open>
  What the kill branch does achieve in every run: no input is written to a process that is
  found killed, and the promise never resolves with a list of buffers. When every page
  after a killed page is killed too and nothing fails, the promise resolves with
  \<open>null\<close>.
\<close>

lemma killed_page_voids_result:
  assumes "truthy (java env)" "existsSync env (jar env (parentUri d))"
    and "result (createTask env d taskType savePath0 format0) = Returns t"
    and "k < pageCount d" "killed env (EngineProcess k)"
  shows "(\<forall>c. StdinWrite k c
            \<notin> set (trace (final (createTask env d taskType savePath0 format0))))
       \<and> (\<forall>bs. promise t \<noteq> Resolved (Some bs))
       \<and> ((\<forall>i j. i \<le> j \<and> j < pageCount d \<and> killed env (EngineProcess i)
               \<longrightarrow> killed env (EngineProcess j))
          \<and> (\<forall>e\<in>set (trace (final (createTask env d taskType savePath0 format0))).
                \<not> failed e)
          \<longrightarrow> promise t = Resolved None)"
proof (cases env d taskType savePath0 format0 rule: createTask_cases)
  case Preflight
  with assms show ?thesis by simp
next
  case (Throws e st1)
  with assms show ?thesis by simp
next
  case (Returns ls st1 p st2)
  note l = launch_initial [OF Returns(3)]
  from chain_trace [OF Returns(4)] have tr: "trace st2 = trace st1 @ emitted st1 st2" .
  from links_nth [OF l(1) assms(4)] l(2) assms(5)
  have kl: "\<exists>l\<in>set ls. killed env (process l)" by force
  have a: "\<forall>c. StdinWrite k c \<notin> set (trace st2)"
  proof (intro allI notI)
    fix c assume "StdinWrite k c \<in> set (trace st2)"
    with tr l(6) have "StdinWrite k c \<in> set (emitted st1 st2)" by auto
    from chain_events [OF Returns(4) this] l(2) assms(5) show False by auto
  qed
  have b: "\<forall>bs. promise t \<noteq> Resolved (Some bs)"
  proof (intro allI notI)
    fix bs assume "promise t = Resolved (Some bs)"
    with Returns(6) assms(3) obtain v' where p: "p = Fulfilled v'" and "buffers st2 = Some bs"
      by (cases p) auto
    with chain_null_buffers [OF Returns(4) p] kl show False by simp
  qed
  have c: "(\<forall>i j. i \<le> j \<and> j < pageCount d \<and> killed env (EngineProcess i)
               \<longrightarrow> killed env (EngineProcess j))
          \<and> (\<forall>e\<in>set (trace st2). \<not> failed e)
          \<longrightarrow> promise t = Resolved None"
  proof
    assume h: "(\<forall>i j. i \<le> j \<and> j < pageCount d \<and> killed env (EngineProcess i)
               \<longrightarrow> killed env (EngineProcess j))
          \<and> (\<forall>e\<in>set (trace st2). \<not> failed e)"
    then have nf: "\<forall>e\<in>set (emitted st1 st2). \<not> failed e" using tr by simp
    from h have s: "sorted_wrt (\<lambda>a b. killed env (process a) \<longrightarrow> killed env (process b)) ls"
      by (intro links_kill_order [OF l(1,2)]) blast
    from chain_no_failure [OF Returns(4) _ nf s] l(4) obtain v' where p: "p = Fulfilled v'"
      by auto
    from chain_null_buffers [OF Returns(4) p] kl have "buffers st2 = None" by simp
    with p Returns(6) assms(3) show "promise t = Resolved None" by auto
  qed
  from a b c Returns(5) show ?thesis by simp
qed

subsection \<open>C6: the second stage\<close>

text \<open>
  C6. A request for \<open>emf\<close> over two pages. Both engine processes are started with the
  format \<open>svg\<close>, and page 0 is converted to a path that ends in \<open>.emf\<close>. The first
  iteration of the \<open>reduce\<close> has overwritten the parameter \<open>format\<close>, so the second
  iteration records \<open>svg\<close> as its \<open>origFormat\<close>: after the output of page 1 has
  been consumed the converter is not called for it, and the task resolves all the same.
\<close>

theorem second_page_left_unconverted:
  "trace (final (render demo_env demo_diagram ''emf'' (Some ''/out/d.emf''))) =
     [Spawn 0 ''java''
        [''-Dplantuml.include.path=/ws'', ''-Djava.awt.headless=true'', ''-jar'',
         ''/ext/plantuml.jar'', ''-pipeimageindex'', ''0'', ''-charset'', ''utf-8'', ''-pipe'',
         ''-tsvg''],
      ProcessesPush (EngineProcess 0),
      Spawn 1 ''java''
        [''-Dplantuml.include.path=/ws'', ''-Djava.awt.headless=true'', ''-jar'',
         ''/ext/plantuml.jar'', ''-pipeimageindex'', ''1'', ''-charset'', ''utf-8'', ''-pipe'',
         ''-tsvg''],
      ProcessesPush (EngineProcess 1),
      StdinWrite 0 ''@startuml'', StdinEnd 0,
      AdapterCall 0 ''/out/d-page1.svg'', AdapterSettled 0 (Inr ''svg0''),
      ConverterSpawn 0 ''/usr/bin/inkscape''
        [''--without-gui'', ''--export-emf=/out/d-page1.emf'', ''/out/d-page1.svg''],
      ConsoleLog 0 ''Generating EMF file: input=/out/d-page1.svg, output=/out/d-page1.emf'',
      ConverterExecFileSync 0 ''/usr/bin/inkscape''
        [''--without-gui'', ''--export-emf=/out/d-page1.emf'', ''/out/d-page1.svg''] None,
      StdinWrite 1 ''@startuml'', StdinEnd 1,
      AdapterCall 1 ''/out/d-page2.svg'', AdapterSettled 1 (Inr ''svg1'')]
   \<and> settled_promise (render demo_env demo_diagram ''emf'' (Some ''/out/d.emf''))
     = Some (Resolved (Some [''svg0'', ''svg1'']))"
  by (simp add: render_def demo_two_pages settled_promise_def)
    (simp add: engineParams_def demo_env_def demo_diagram_def truthy_def string_of_nat.simps)

subsection \<open>C7: a failing converter\<close>

text \<open>
  C7. If the blocking call of the converter throws \<open>e\<close>, the promise of the task is
  rejected with \<open>e\<close> as it is. If the promise resolves with a list of buffers, the list
  has one entry for each page, and the entry of page \<open>j\<close> is the buffer with which the
  adapter settled for page \<open>j\<close>. The second stage never touches the list, and its
  continuation yields the empty string whenever it does not throw.
\<close>

theorem converter_failure_rejects_task:
  assumes "result (createTask env d taskType savePath0 format0) = Returns t"
  shows "(ConverterExecFileSync i exe args (Some e)
            \<in> set (trace (final (createTask env d taskType savePath0 format0)))
          \<longrightarrow> promise t = Rejected (ConverterError e))
       \<and> (promise t = Resolved (Some bs) \<longrightarrow>
            length bs = pageCount d
            \<and> (\<forall>j<pageCount d. AdapterSettled j (Inr (bs ! j))
                  \<in> set (trace (final (createTask env d taskType savePath0 format0)))))
       \<and> (\<forall>p st. buffers (snd (convert env i p st)) = buffers st)
       \<and> (\<forall>p st. fst (convert env i p st) = Fulfilled (JsString [])
                \<or> (\<exists>e'. fst (convert env i p st) = Rejects (ConverterError e')))"
proof -
  have cv: "(\<forall>p st. buffers (snd (convert env i p st)) = buffers st)
       \<and> (\<forall>p st. fst (convert env i p st) = Fulfilled (JsString [])
                \<or> (\<exists>e'. fst (convert env i p st) = Rejects (ConverterError e')))"
    by (simp add: convert_def Let_def split: option.splits)
  have "(ConverterExecFileSync i exe args (Some e)
            \<in> set (trace (final (createTask env d taskType savePath0 format0)))
          \<longrightarrow> promise t = Rejected (ConverterError e))
       \<and> (promise t = Resolved (Some bs) \<longrightarrow>
            length bs = pageCount d
            \<and> (\<forall>j<pageCount d. AdapterSettled j (Inr (bs ! j))
                  \<in> set (trace (final (createTask env d taskType savePath0 format0)))))"
  proof (cases env d taskType savePath0 format0 rule: createTask_cases)
    case Preflight
    with assms show ?thesis by auto
  next
    case (Throws e st1)
    with assms show ?thesis by simp
  next
    case (Returns ls st1 p st2)
    note l = launch_initial [OF Returns(3)]
    from chain_trace [OF Returns(4)] have tr: "trace st2 = trace st1 @ emitted st1 st2" .
    have "ConverterExecFileSync i exe args (Some e) \<in> set (trace st2)
            \<longrightarrow> promise t = Rejected (ConverterError e)"
    proof
      assume "ConverterExecFileSync i exe args (Some e) \<in> set (trace st2)"
      with tr l(6) have "ConverterExecFileSync i exe args (Some e) \<in> set (emitted st1 st2)"
        by auto
      from chain_converter_failed [OF Returns(4) this] Returns(6) assms
      show "promise t = Rejected (ConverterError e)" by auto
    qed
    moreover have "promise t = Resolved (Some bs) \<longrightarrow>
              length bs = pageCount d
              \<and> (\<forall>j<pageCount d. AdapterSettled j (Inr (bs ! j)) \<in> set (trace st2))"
    proof
      assume r: "promise t = Resolved (Some bs)"
      with Returns(6) assms obtain v' where "p = Fulfilled v'" "buffers st2 = Some bs"
        by (cases p) auto
      from task_artifacts [OF Returns(3) Returns(4) [unfolded this(1)] this(2)] tr
      show "length bs = pageCount d
              \<and> (\<forall>j<pageCount d. AdapterSettled j (Inr (bs ! j)) \<in> set (trace st2))"
        by simp
    qed
    ultimately show ?thesis using Returns(5) by simp
  qed
  with cv show ?thesis by blast
qed

text \<open>
  A converter that exits with an error rejects the task of a one-page request; the
  two-stage run over two pages resolves with the two outputs of the adapter.
\<close>

theorem converter_failure_rejects_task_witness:
  "ConverterExecFileSync 0 ''/usr/bin/inkscape''
       [''--without-gui'', ''--export-emf=/out/d.emf'', ''/out/d.svg''] (Some ''exit code 1'')
     \<in> set (trace (final (createTask converter_fails_env one_page ''-pipe'' (Some ''/out/d.emf'')
          (Some ''emf''))))
   \<and> settled_promise
       (createTask converter_fails_env one_page ''-pipe'' (Some ''/out/d.emf'') (Some ''emf''))
     = Some (Rejected (ConverterError ''exit code 1''))
   \<and> settled_promise (createTask demo_env demo_diagram ''-pipe'' (Some ''/out/d.emf'') (Some ''emf''))
     = Some (Resolved (Some [''svg0'', ''svg1'']))
   \<and> length [''svg0'', ''svg1''] = pageCount demo_diagram
   \<and> AdapterSettled 1 (Inr ([''svg0'', ''svg1''] ! 1))
       \<in> set (trace (final (createTask demo_env demo_diagram ''-pipe'' (Some ''/out/d.emf'')
            (Some ''emf''))))"
proof -
  let ?r = "createTask converter_fails_env one_page ''-pipe'' (Some ''/out/d.emf'') (Some ''emf'')"
  let ?t = "\<lparr>task_processes = Some [EngineProcess 0],
             promise = Rejected (ConverterError ''exit code 1'')\<rparr>"
  let ?r2 = "createTask demo_env demo_diagram ''-pipe'' (Some ''/out/d.emf'') (Some ''emf'')"
  let ?t2 = "\<lparr>task_processes = Some [EngineProcess 0, EngineProcess 1],
              promise = Resolved (Some [''svg0'', ''svg1''])\<rparr>"
  have r: "result ?r = Returns ?t" by (simp add: demo_converter_fails)
  have r2: "result ?r2 = Returns ?t2" by (simp add: demo_two_pages)
  have e: "ConverterExecFileSync 0 ''/usr/bin/inkscape''
       [''--without-gui'', ''--export-emf=/out/d.emf'', ''/out/d.svg''] (Some ''exit code 1'')
     \<in> set (trace (final ?r))" by (simp add: demo_converter_fails)
  have n: "1 < pageCount demo_diagram" by (simp add: demo_diagram_def)
  from converter_failure_rejects_task [OF r, of 0 "''/usr/bin/inkscape''"
      "[''--without-gui'', ''--export-emf=/out/d.emf'', ''/out/d.svg'']" "''exit code 1''"] e
  have a: "promise ?t = Rejected (ConverterError ''exit code 1'')" by blast
  from converter_failure_rejects_task [OF r2, of 0 "[]" "[]" "[]" "[''svg0'', ''svg1'']"]
  have "length [''svg0'', ''svg1''] = pageCount demo_diagram
      \<and> (\<forall>j<pageCount demo_diagram.
            AdapterSettled j (Inr ([''svg0'', ''svg1''] ! j)) \<in> set (trace (final ?r2)))"
    by simp
  with n have b: "length [''svg0'', ''svg1''] = pageCount demo_diagram"
    and c: "AdapterSettled 1 (Inr ([''svg0'', ''svg1''] ! 1)) \<in> set (trace (final ?r2))"
    by blast+
  from a b c e r r2 show ?thesis by (simp add: settled_promise_def)
qed

text \<open>
  The promise does not settle in the same way whether the converter succeeds or fails: the
  two worlds below differ in \<open>execFileSync\<close> only.
\<close>

theorem converter_failure_counterexample:
  "settled_promise (createTask demo_env one_page ''-pipe'' (Some ''/out/d.emf'') (Some ''emf''))
     = Some (Resolved (Some [''svg0'']))
   \<and> settled_promise
       (createTask converter_fails_env one_page ''-pipe'' (Some ''/out/d.emf'') (Some ''emf''))
     = Some (Rejected (ConverterError ''exit code 1''))"
  by (simp add: demo_one_page demo_converter_fails settled_promise_def)

subsection \<open>C8: eager spawning\<close>

text \<open>
  C8. When the preflight passes and \<open>createTask\<close> returns a task, the run begins with
  \<open>2 * pageCount\<close> events of the synchronous phase: for each page \<open>i\<close> in order, the
  spawn of its engine process at position \<open>2 i\<close> and the append of its handle to the
  process list at position \<open>2 i + 1\<close>. These are all the spawns and appends of the run:
  an event is one of them exactly when it stands before position \<open>2 * pageCount\<close>. So
  every write to a standard input, every call of the adapter and every later event finds
  all processes started and all handles in the list, which is the list of the task: the
  value of \<open>processes\<close> after the last iteration of the \<open>reduce\<close>, before any
  continuation has run, already holds the handles of all pages.
\<close>

theorem engine_processes_spawned_eagerly:
  assumes "truthy (java env)" "existsSync env (jar env (parentUri d))"
    and "result (createTask env d taskType savePath0 format0) = Returns t"
  shows "task_processes t = Some (map EngineProcess [0..<pageCount d])
       \<and> 2 * pageCount d \<le> length (trace (final (createTask env d taskType savePath0 format0)))
       \<and> (\<forall>i<pageCount d.
             (\<exists>args. trace (final (createTask env d taskType savePath0 format0)) ! (2 * i)
                       = Spawn i (java env) args)
             \<and> trace (final (createTask env d taskType savePath0 format0)) ! (2 * i + 1)
                 = ProcessesPush (EngineProcess i))
       \<and> (\<forall>p<length (trace (final (createTask env d taskType savePath0 format0))).
             is_launch (trace (final (createTask env d taskType savePath0 format0)) ! p)
             \<longleftrightarrow> p < 2 * pageCount d)
       \<and> pageCount d < length (snapshots (final (createTask env d taskType savePath0 format0)))
       \<and> snapshots (final (createTask env d taskType savePath0 format0)) ! pageCount d
           = map EngineProcess [0..<pageCount d]"
proof (cases env d taskType savePath0 format0 rule: createTask_cases)
  case Preflight
  with assms show ?thesis by simp
next
  case (Throws e st1)
  with assms show ?thesis by simp
next
  case (Returns ls st1 p st2)
  note l = launch_initial [OF Returns(3)]
  let ?n = "pageCount d"
  from l(5) obtain params where L: "trace st1 = concat (map (\<lambda>i.
      [Spawn i (java env) (params i), ProcessesPush (EngineProcess i)]) [0..<?n])" by blast
  from chain_trace [OF Returns(4)] have tr: "trace st2 = trace st1 @ emitted st1 st2" .
  have len: "length (trace st1) = 2 * ?n" by (simp add: L launch_events_nth(1))
  have a: "task_processes t = Some (map EngineProcess [0..<?n])"
    using chain_frame [OF Returns(4)] l(3) Returns(6) assms(3) by auto
  have b: "2 * ?n \<le> length (trace st2)" using tr len by simp
  have c: "\<forall>i<?n. (\<exists>args. trace st2 ! (2 * i) = Spawn i (java env) args)
             \<and> trace st2 ! (2 * i + 1) = ProcessesPush (EngineProcess i)"
  proof (intro allI impI)
    fix i assume i: "i < ?n"
    then have "i < length [0..<?n]" by simp
    from launch_events_nth(2) [OF this, of "\<lambda>i. Spawn i (java env) (params i)"
        "\<lambda>i. ProcessesPush (EngineProcess i)"] i
    have "trace st1 ! (2 * i) = Spawn i (java env) (params i)"
      and "trace st1 ! (2 * i + 1) = ProcessesPush (EngineProcess i)" by (simp_all add: L)
    moreover from i len have "2 * i < length (trace st1)" "2 * i + 1 < length (trace st1)"
      by simp_all
    ultimately show "(\<exists>args. trace st2 ! (2 * i) = Spawn i (java env) args)
             \<and> trace st2 ! (2 * i + 1) = ProcessesPush (EngineProcess i)"
      by (simp add: tr nth_append)
  qed
  have d: "\<forall>p<length (trace st2). is_launch (trace st2 ! p) \<longleftrightarrow> p < 2 * ?n"
  proof (intro allI impI)
    fix p assume p: "p < length (trace st2)"
    show "is_launch (trace st2 ! p) \<longleftrightarrow> p < 2 * ?n"
    proof (cases "p < 2 * ?n")
      case True
      with len have "trace st2 ! p \<in> set (trace st1)" by (simp add: tr nth_append)
      with l(6) True show ?thesis by simp
    next
      case False
      with p len have "trace st2 ! p \<in> set (emitted st1 st2)"
        by (simp add: tr nth_append)
      with chain_events [OF Returns(4)] False show ?thesis by blast
    qed
  qed
  have e: "?n < length (snapshots st2)
       \<and> snapshots st2 ! ?n = map EngineProcess [0..<?n]"
  proof -
    from launch_last_snapshot [OF Returns(3)]
    have n1: "length (snapshots st1) = Suc ?n" and l1: "last (snapshots st1) = processes st1"
      by (simp_all add: initial_def)
    from chain_snapshots_grow [OF Returns(4)] obtain more where
      m: "snapshots st2 = snapshots st1 @ more" by (auto simp: prefix_def)
    from n1 have "snapshots st1 ! ?n = last (snapshots st1)"
      by (metis diff_Suc_1 last_conv_nth length_0_conv nat.distinct(1))
    with m n1 l1 l(3) show ?thesis by (simp add: nth_append)
  qed
  from a b c d e Returns(5) show ?thesis by simp
qed

text \<open>
  The two-stage run over two pages: both handles are in the list before the first input
  is written.
\<close>

theorem engine_processes_spawned_eagerly_witness:
  "settled_promise (createTask demo_env demo_diagram ''-pipe'' (Some ''/out/d.emf'') (Some ''emf''))
     = Some (Resolved (Some [''svg0'', ''svg1'']))
   \<and> trace (final (createTask demo_env demo_diagram ''-pipe'' (Some ''/out/d.emf'')
        (Some ''emf''))) ! (2 * 0 + 1) = ProcessesPush (EngineProcess 0)
   \<and> trace (final (createTask demo_env demo_diagram ''-pipe'' (Some ''/out/d.emf'')
        (Some ''emf''))) ! (2 * 1 + 1) = ProcessesPush (EngineProcess 1)
   \<and> trace (final (createTask demo_env demo_diagram ''-pipe'' (Some ''/out/d.emf'')
        (Some ''emf''))) ! 4 = StdinWrite 0 ''@startuml''
   \<and> \<not> is_launch (trace (final (createTask demo_env demo_diagram ''-pipe'' (Some ''/out/d.emf'')
        (Some ''emf''))) ! 4)
   \<and> snapshots (final (createTask demo_env demo_diagram ''-pipe'' (Some ''/out/d.emf'')
        (Some ''emf''))) ! pageCount demo_diagram = map EngineProcess [0..<pageCount demo_diagram]"
proof -
  let ?r = "createTask demo_env demo_diagram ''-pipe'' (Some ''/out/d.emf'') (Some ''emf'')"
  let ?t = "\<lparr>task_processes = Some [EngineProcess 0, EngineProcess 1],
             promise = Resolved (Some [''svg0'', ''svg1''])\<rparr>"
  have r: "result ?r = Returns ?t" by (simp add: demo_two_pages)
  have n: "pageCount demo_diagram = 2" by (simp add: demo_diagram_def)
  have w: "trace (final ?r) ! 4 = StdinWrite 0 ''@startuml''"
    and k: "4 < length (trace (final ?r))" by (simp_all add: demo_two_pages)
  from engine_processes_spawned_eagerly [OF demo_preflight(1,2) r]
  have c: "\<forall>i<pageCount demo_diagram.
             trace (final ?r) ! (2 * i + 1) = ProcessesPush (EngineProcess i)"
    and d: "\<forall>p<length (trace (final ?r)).
             is_launch (trace (final ?r) ! p) \<longleftrightarrow> p < 2 * pageCount demo_diagram"
    and e: "snapshots (final ?r) ! pageCount demo_diagram
              = map EngineProcess [0..<pageCount demo_diagram]"
    by blast+
  from c [rule_format, of 0] c [rule_format, of 1] n
  have "trace (final ?r) ! (2 * 0 + 1) = ProcessesPush (EngineProcess 0)"
    and "trace (final ?r) ! (2 * 1 + 1) = ProcessesPush (EngineProcess 1)" by simp_all
  moreover from d k n have "\<not> is_launch (trace (final ?r) ! 4)" by auto
  ultimately show ?thesis using r w e by (simp add: settled_promise_def)
qed

text \<open>
  Without the two hypotheses nothing need be spawned for a diagram of two pages: with a
  relative include folder and no workspace folder the preflight passes and the first
  iteration throws before its spawn; with no engine executable configured the preflight
  returns a task at once.
\<close>

theorem engine_processes_spawned_counterexample:
  "pageCount demo_diagram = 2
   \<and> truthy (java no_workspace_env)
   \<and> existsSync no_workspace_env (jar no_workspace_env (parentUri demo_diagram))
   \<and> result (createTask no_workspace_env demo_diagram ''-pipe'' None (Some ''png''))
     = Throws TypeErrorNoWorkspace
   \<and> trace (final (createTask no_workspace_env demo_diagram ''-pipe'' None (Some ''png''))) = []
   \<and> result (createTask (demo_env\<lparr>java := []\<rparr>) demo_diagram ''-pipe'' None (Some ''png''))
     = Returns \<lparr>task_processes = None, promise = Rejected (ConfigMessage ''5'')\<rparr>
   \<and> trace (final (createTask (demo_env\<lparr>java := []\<rparr>) demo_diagram ''-pipe'' None
        (Some ''png''))) = []"
  by (simp add: demo_no_workspace demo_preflight)
    (simp add: createTask_def initial_def demo_env_def demo_diagram_def truthy_def
      string_of_nat.simps)

subsection \<open>C9: the process list\<close>

text \<open>
  C9. Of the values that \<open>processes\<close> takes during a run, each is a prefix of every
  later one and of the final one, and none is longer than \<open>pageCount\<close>; the list of the
  returned task is the final one. This holds on the two-stage path as well.
\<close>

theorem process_list_append_only:
  "sorted_wrt prefix (snapshots (final (createTask env d taskType savePath0 format0)))
   \<and> (\<forall>s\<in>set (snapshots (final (createTask env d taskType savePath0 format0))).
         prefix s (processes (final (createTask env d taskType savePath0 format0)))
         \<and> length s \<le> pageCount d)
   \<and> length (processes (final (createTask env d taskType savePath0 format0))) \<le> pageCount d
   \<and> (\<forall>t hs. result (createTask env d taskType savePath0 format0) = Returns t
         \<and> task_processes t = Some hs
         \<longrightarrow> hs = processes (final (createTask env d taskType savePath0 format0)))"
proof -
  let ?st = "final (createTask env d taskType savePath0 format0)"
  have i: "sorted_wrt prefix (snapshots (initial savePath0 format0)
             @ [processes (initial savePath0 format0)])"
    by (simp add: initial_def)
  have "sorted_wrt prefix (snapshots ?st @ [processes ?st])
      \<and> length (processes ?st) \<le> pageCount d
      \<and> (\<forall>t hs. result (createTask env d taskType savePath0 format0) = Returns t
            \<and> task_processes t = Some hs \<longrightarrow> hs = processes ?st)"
  proof (cases env d taskType savePath0 format0 rule: createTask_cases)
    case Preflight
    then show ?thesis by auto
  next
    case (Throws e st1)
    from launch_snapshots [OF Throws(3) i] Throws(4,5) show ?thesis
      by (simp add: initial_def)
  next
    case (Returns ls st1 p st2)
    from launch_snapshots [OF Returns(3) i]
    have s1: "sorted_wrt prefix (snapshots st1 @ [processes st1])"
      and n1: "length (processes st1) \<le> pageCount d" by (simp_all add: initial_def)
    from chain_snapshots [OF Returns(4) s1] chain_frame [OF Returns(4)] n1 Returns(5,6)
    show ?thesis by simp
  qed
  then have a: "sorted_wrt prefix (snapshots ?st @ [processes ?st])"
    and b: "length (processes ?st) \<le> pageCount d"
    and c: "\<forall>t hs. result (createTask env d taskType savePath0 format0) = Returns t
            \<and> task_processes t = Some hs \<longrightarrow> hs = processes ?st" by blast+
  from a have "sorted_wrt prefix (snapshots ?st)"
    and p: "\<forall>s\<in>set (snapshots ?st). prefix s (processes ?st)"
    by (simp_all add: sorted_wrt_append)
  moreover from p b have "\<forall>s\<in>set (snapshots ?st). length s \<le> pageCount d"
    using prefix_length_le by fastforce
  ultimately show ?thesis using b c by simp
qed

text \<open>
  The values of \<open>processes\<close> in the two-stage run over two pages.
\<close>

theorem process_list_append_only_witness:
  "snapshots (final (createTask demo_env demo_diagram ''-pipe'' (Some ''/out/d.emf'') (Some ''emf'')))
     = [[], [EngineProcess 0], [EngineProcess 0, EngineProcess 1],
        [EngineProcess 0, EngineProcess 1], [EngineProcess 0, EngineProcess 1]]
   \<and> sorted_wrt prefix
       (snapshots (final (createTask demo_env demo_diagram ''-pipe'' (Some ''/out/d.emf'') (Some ''emf''))))
   \<and> length (processes (final (createTask demo_env demo_diagram ''-pipe'' (Some ''/out/d.emf'')
        (Some ''emf'')))) \<le> pageCount demo_diagram"
proof -
  have "snapshots (final (createTask demo_env demo_diagram ''-pipe'' (Some ''/out/d.emf'') (Some ''emf'')))
     = [[], [EngineProcess 0], [EngineProcess 0, EngineProcess 1],
        [EngineProcess 0, EngineProcess 1], [EngineProcess 0, EngineProcess 1]]"
    by (simp add: demo_two_pages)
  with process_list_append_only [of demo_env demo_diagram "''-pipe''" "Some ''/out/d.emf''" "Some ''emf''"]
  show ?thesis by blast
qed

subsection \<open>C10: two converter processes\<close>



end
